theory Spec2Isabelle
  imports Complex_Main
begin

section \<open>The preconditioned binomial series: data model\<close>

text \<open>
  The program is the single Python function \<open>aqueeq_binomial\<close>, which computes
  \<open>(x + y)\<^sup>\<alpha>\<close> for complex \<open>x\<close>, \<open>y\<close>, \<open>\<alpha>\<close>.

  Numbers. A Python \<open>complex\<close> is a pair of doubles. The first model keeps the
  exact value of every number: a Python \<open>float\<close> is a \<^typ>\<open>real\<close>, a Python
  \<open>complex\<close> is a \<^typ>\<open>complex\<close>, \<open>+\<close>, \<open>-\<close>, \<open>*\<close> and \<open>/\<close> are exact and
  rounding is not modelled. What is kept of the double format is its range: the
  library calls that raise on a result outside the doubles (\<open>**\<close>, \<open>abs\<close> of a
  complex, \<open>cmath.exp\<close>) raise \<open>OverflowError\<close> here when the exact result has a
  component of magnitude \<open>2\<^sup>1\<^sup>0\<^sup>2\<^sup>4\<close> or more. It is the model of what the
  function computes. What does not depend on the numbers is proved of a second model,
  the same function over an arbitrary arithmetic, and what depends on the rounding of
  the doubles is evaluated in double arithmetic; both follow the first model.

  Errors are values: every exception the function or a library call of it can raise
  is a constructor of \<open>error\<close>, and a computation that can raise returns
  \<open>error + 'a\<close> with \<open>Inl\<close> for the exception.
\<close>

datatype error =
    ValueError string
  | ZeroDivisionError
  | OverflowError

text \<open>The one exception the function raises by itself (line 59 of the source).\<close>

definition DomainError :: error where
  "DomainError = ValueError ''Cannot reliably compute 0 raised to non-positive or complex power''"

text \<open>
  The three \<open>warnings.warn(..., RuntimeWarning)\<close> calls. The message of each is a
  formatted string; the model keeps the numbers that are formatted into it.
\<close>

datatype runtime_warning =
    EqualMagnitudeWarning
  | BoundaryWarning real real
  | NoConvergenceWarning int real real

text \<open>
  The diagnostics dictionary. A key that a return site does not set is \<open>None\<close>;
  the key \<open>"z"\<close> is always set, to a complex number or to Python's \<open>None\<close>.
\<close>

record info =
  terms_used :: int
  used_fallback :: bool
  info_z :: "complex option"
  info_note :: "string option"
  last_term_abs :: "real option"
  converged :: "bool option"
  info_base :: "complex option"

subsection \<open>Library operations\<close>

definition float_max_bound :: real where
  "float_max_bound = 2 ^ 1024"

definition finite_float :: "real \<Rightarrow> bool" where
  "finite_float r = (\<bar>r\<bar> < float_max_bound)"

definition finite_complex :: "complex \<Rightarrow> bool" where
  "finite_complex c = (finite_float (Re c) \<and> finite_float (Im c))"

definition range_checked :: "complex \<Rightarrow> error + complex" where
  "range_checked c = (if finite_complex c then Inr c else Inl OverflowError)"

text \<open>\<open>float.is_integer()\<close>\<close>

definition is_integer :: "real \<Rightarrow> bool" where
  "is_integer r = (of_int \<lfloor>r\<rfloor> = r)"

text \<open>\<open>abs(c)\<close> of a complex: the modulus, \<open>OverflowError\<close> when it is not a double.\<close>

definition py_abs :: "complex \<Rightarrow> error + real" where
  "py_abs c = (if finite_float (cmod c) then Inr (cmod c) else Inl OverflowError)"

text \<open>
  \<open>cmath.log\<close>: the principal logarithm, imaginary part in \<open>(-\<pi>, \<pi>]\<close>;
  \<open>ValueError\<close> at zero.
\<close>

definition principal_log :: "complex \<Rightarrow> complex" where
  "principal_log c = Complex (ln (cmod c)) (Arg c)"

definition cmath_log :: "complex \<Rightarrow> error + complex" where
  "cmath_log c = (if c = 0 then Inl (ValueError ''math domain error'') else Inr (principal_log c))"

text \<open>\<open>cmath.exp\<close>\<close>

definition cmath_exp :: "complex \<Rightarrow> error + complex" where
  "cmath_exp w = range_checked (exp w)"

text \<open>
  \<open>a ** b\<close>: one to the power zero included, zero to a positive real power is zero,
  zero to a negative or complex power raises \<open>ZeroDivisionError\<close>, and every other
  power is the principal one. A power of two floats is the same function on the real
  axis.
\<close>

definition py_pow :: "complex \<Rightarrow> complex \<Rightarrow> error + complex" where
  "py_pow a b =
     (if b = 0 then Inr 1
      else if a = 0 then (if Im b \<noteq> 0 \<or> Re b < 0 then Inl ZeroDivisionError else Inr 0)
      else range_checked (exp (b * principal_log a)))"

text \<open>\<open>a / b\<close>\<close>

definition py_div :: "complex \<Rightarrow> complex \<Rightarrow> error + complex" where
  "py_div a b = (if b = 0 then Inl ZeroDivisionError else Inr (a / b))"

subsection \<open>\<open>Fraction(alpha.real).limit_denominator(1000)\<close>\<close>

text \<open>
  \<open>Fraction(f)\<close> of a float is \<open>f.as_integer_ratio()\<close>: the float is doubled until
  it is integral, which takes at most 1074 doublings for a double. The pair is
  numerator and denominator in lowest terms.
\<close>

fun float_ratio :: "nat \<Rightarrow> real \<Rightarrow> int \<Rightarrow> int \<times> int" where
  "float_ratio 0 r d = (\<lfloor>r\<rfloor>, d)"
| "float_ratio (Suc n) r d =
     (if is_integer r then (\<lfloor>r\<rfloor>, d) else float_ratio n (2 * r) (2 * d))"

definition as_integer_ratio :: "real \<Rightarrow> int \<times> int" where
  "as_integer_ratio r = float_ratio 1074 r 1"

text \<open>
  The loop of \<open>Fraction.limit_denominator\<close> over the continued-fraction convergents
  \<open>p0/q0\<close>, \<open>p1/q1\<close> of \<open>n/d\<close>. It leaves by \<open>break\<close> with the state
  \<open>(p0, q0, p1, q1, n, d)\<close>; \<open>n // d\<close> raises at \<open>d = 0\<close>.
\<close>

function limit_loop ::
  "int \<Rightarrow> int \<Rightarrow> int \<Rightarrow> int \<Rightarrow> int \<Rightarrow> int \<Rightarrow> int \<Rightarrow> error + (int \<times> int \<times> int \<times> int \<times> int \<times> int)" where
  "limit_loop max_denominator p0 q0 p1 q1 n d =
     (if d = 0 then Inl ZeroDivisionError
      else let a = n div d; q2 = q0 + a * q1 in
        if q2 > max_denominator then Inr (p0, q0, p1, q1, n, d)
        else limit_loop max_denominator p1 q1 (p0 + a * p1) q2 d (n - a * d))"
  by pat_completeness auto
termination
proof (relation "measure (\<lambda>(m, p0, q0, p1, q1, n, d). nat \<bar>d\<bar>)")
  show "wf (measure (\<lambda>(m, p0, q0, p1, q1, n, d). nat \<bar>d\<bar>))"
    by simp
next
  fix max_denominator p0 q0 p1 q1 n d :: int and a q2 :: int
  assume d: "d \<noteq> 0" and a: "a = n div d"
  have "n - (n div d) * d = n mod d"
    by (simp add: minus_div_mult_eq_mod)
  moreover have "\<bar>n mod d\<bar> < \<bar>d\<bar>"
    using d by (simp add: abs_mod_less)
  ultimately show "((max_denominator, p1, q1, p0 + a * p1, q2, d, n - a * d),
                    (max_denominator, p0, q0, p1, q1, n, d))
                   \<in> measure (\<lambda>(m, p0, q0, p1, q1, n, d). nat \<bar>d\<bar>)"
    using a by simp
qed

declare limit_loop.simps [simp del]

definition limit_denominator :: "int \<times> int \<Rightarrow> int \<Rightarrow> error + (int \<times> int)" where
  "limit_denominator fr max_denominator =
     (let numerator = fst fr; denominator = snd fr in
      if max_denominator < 1 then Inl (ValueError ''max_denominator should be at least 1'')
      else if denominator \<le> max_denominator then Inr (numerator, denominator)
      else
        case limit_loop max_denominator 0 1 1 0 numerator denominator of
          Inl e \<Rightarrow> Inl e
        | Inr (p0, q0, p1, q1, n, d) \<Rightarrow>
            if q1 = 0 then Inl ZeroDivisionError
            else let k = (max_denominator - q0) div q1 in
              if 2 * d * (q0 + k * q1) \<le> denominator then Inr (p1, q1)
              else Inr (p0 + k * p1, q0 + k * q1))"

text \<open>
  The last step above is the integer test of CPython 3.12 and later. Up to CPython
  3.11 the two candidates are built as fractions and their distances to the fraction
  are compared; \<open>limit_denominator_versions_agree\<close> below shows that this is the
  same function.
\<close>

definition limit_denominator_by_distance :: "int \<times> int \<Rightarrow> int \<Rightarrow> error + (int \<times> int)" where
  "limit_denominator_by_distance fr max_denominator =
     (let numerator = fst fr; denominator = snd fr in
      if max_denominator < 1 then Inl (ValueError ''max_denominator should be at least 1'')
      else if denominator \<le> max_denominator then Inr (numerator, denominator)
      else
        case limit_loop max_denominator 0 1 1 0 numerator denominator of
          Inl e \<Rightarrow> Inl e
        | Inr (p0, q0, p1, q1, n, d) \<Rightarrow>
            if q1 = 0 then Inl ZeroDivisionError
            else let k = (max_denominator - q0) div q1 in
              if q0 + k * q1 = 0 then Inl ZeroDivisionError
              else
                let bound1 = Fract (p0 + k * p1) (q0 + k * q1);
                    bound2 = Fract p1 q1;
                    self = Fract numerator denominator
                in if \<bar>bound2 - self\<bar> \<le> \<bar>bound1 - self\<bar> then Inr (quotient_of bound2)
                   else Inr (quotient_of bound1))"

section \<open>The function \<open>aqueeq_binomial\<close>\<close>

text \<open>
  The function returns the value, or the pair of the value and the diagnostics when
  \<open>return_info\<close> is set; the model returns the pair with the diagnostics optional.
  Beside what it returns or raises, a call emits warnings: the model's result is the
  list of warnings emitted, in order, and the outcome.
\<close>

type_synonym outcome = "runtime_warning list \<times> (error + complex \<times> info option)"

definition plain_info :: "bool \<Rightarrow> complex option \<Rightarrow> info" where
  "plain_info fb zo =
     \<lparr>terms_used = 0, used_fallback = fb, info_z = zo, info_note = None,
      last_term_abs = None, converged = None, info_base = None\<rparr>"

definition returned :: "bool \<Rightarrow> complex \<Rightarrow> info \<Rightarrow> complex \<times> info option" where
  "returned return_info result i = (result, if return_info then Some i else None)"

text \<open>\<open>cmath.exp(alpha * cmath.log(w))\<close>\<close>

definition log_exp :: "complex \<Rightarrow> complex \<Rightarrow> error + complex" where
  "log_exp alpha w =
     (case cmath_log w of Inl e \<Rightarrow> Inl e | Inr l \<Rightarrow> cmath_exp (alpha * l))"

subsection \<open>The real odd root (lines 31 to 40)\<close>

text \<open>\<open>except (ValueError, ZeroDivisionError): pass\<close>\<close>

fun caught :: "error \<Rightarrow> bool" where
  "caught (ValueError m) = True"
| "caught ZeroDivisionError = True"
| "caught OverflowError = False"

text \<open>
  The \<open>try\<close> block: \<open>Some\<close> of the value returned inside it, \<open>None\<close> when control
  falls through to the complex power, \<open>Inl\<close> for an exception that is not caught.
\<close>

definition real_odd_root :: "complex \<Rightarrow> complex \<Rightarrow> error + complex option" where
  "real_odd_root x alpha =
     (case limit_denominator (as_integer_ratio (Re alpha)) 1000 of
        Inl e \<Rightarrow> if caught e then Inr None else Inl e
      | Inr fr \<Rightarrow>
          if snd fr mod 2 = 1 then
            (case py_pow (of_real \<bar>Re x\<bar>) (of_real (Re alpha)) of
               Inl e \<Rightarrow> if caught e then Inr None else Inl e
             | Inr abs_root \<Rightarrow> Inr (Some (- abs_root)))
          else Inr None)"

subsection \<open>Preconditioning (lines 65 to 71)\<close>

text \<open>
  \<open>Some (A, z)\<close> for the dominant operand and the ratio, \<open>None\<close> for the \<open>else\<close>
  branch of equal magnitudes.
\<close>

definition preconditioning :: "complex \<Rightarrow> complex \<Rightarrow> error + (complex \<times> complex) option" where
  "preconditioning x y =
     (case py_abs x of Inl e \<Rightarrow> Inl e | Inr ax \<Rightarrow>
     (case py_abs y of Inl e \<Rightarrow> Inl e | Inr ay \<Rightarrow>
        if ax < ay then
          (case py_div x y of Inl e \<Rightarrow> Inl e | Inr z \<Rightarrow> Inr (Some (y, z)))
        else if ax > ay then
          (case py_div y x of Inl e \<Rightarrow> Inl e | Inr z \<Rightarrow> Inr (Some (x, z)))
        else Inr None))"

subsection \<open>Series summation (lines 90 to 132)\<close>

definition effective_max_terms :: "int \<Rightarrow> real \<Rightarrow> real \<Rightarrow> int" where
  "effective_max_terms max_terms az boundary_threshold =
     (if 0.75 < az \<and> az \<le> boundary_threshold then max max_terms (max_terms * 3)
      else max_terms)"

text \<open>
  The \<open>while\<close> loop, from the state \<open>(k, term, S)\<close> to the state in which it is left,
  by \<open>break\<close> or by its condition.
\<close>

function series_loop ::
  "complex \<Rightarrow> complex \<Rightarrow> real \<Rightarrow> int \<Rightarrow> int \<Rightarrow> complex \<Rightarrow> complex \<Rightarrow> error + (int \<times> complex \<times> complex)" where
  "series_loop alpha z tol effective_max k term S =
     (if k \<le> effective_max then
        (case py_div ((alpha - of_int k + 1) * z) (of_int k) of
           Inl e \<Rightarrow> Inl e
         | Inr multiplier \<Rightarrow>
             (case py_abs (term * multiplier) of Inl e \<Rightarrow> Inl e | Inr t_abs \<Rightarrow>
             (case py_abs S of Inl e \<Rightarrow> Inl e | Inr S_abs \<Rightarrow>
                if t_abs < 1 / 10 ^ 16 * S_abs \<or> t_abs < 1 / 10 ^ 14
                then Inr (k, term * multiplier, S)
                else
                  (case py_abs (S + term * multiplier) of Inl e \<Rightarrow> Inl e | Inr S_abs' \<Rightarrow>
                     if t_abs < tol * S_abs'
                     then Inr (k, term * multiplier, S + term * multiplier)
                     else series_loop alpha z tol effective_max (k + 1)
                            (term * multiplier) (S + term * multiplier)))))
      else Inr (k, term, S))"
  by pat_completeness auto
termination
  by (relation "measure (\<lambda>(alpha, z, tol, effective_max, k, term, S). nat (effective_max + 1 - k))")
     auto

declare series_loop.simps [simp del]

text \<open>The warning after the loop (lines 112 to 116).\<close>

definition no_convergence_check ::
  "int \<Rightarrow> int \<Rightarrow> complex \<Rightarrow> complex \<Rightarrow> real \<Rightarrow> complex \<Rightarrow> error + runtime_warning list" where
  "no_convergence_check k effective_max term S tol z =
     (if k \<ge> effective_max then
        (case py_abs term of Inl e \<Rightarrow> Inl e | Inr t_abs \<Rightarrow>
        (case py_abs S of Inl e \<Rightarrow> Inl e | Inr S_abs \<Rightarrow>
           if t_abs \<ge> tol * S_abs then
             (case py_abs z of Inl e \<Rightarrow> Inl e | Inr az \<Rightarrow>
                Inr [NoConvergenceWarning effective_max az t_abs])
           else Inr []))
      else Inr [])"

text \<open>The result and the diagnostics of the series (lines 118 to 132).\<close>

definition series_result ::
  "complex \<Rightarrow> complex \<Rightarrow> complex \<Rightarrow> real \<Rightarrow> bool \<Rightarrow> int \<Rightarrow> complex \<Rightarrow> complex \<Rightarrow> error + complex \<times> info option" where
  "series_result A z alpha tol return_info k term S =
     (case log_exp alpha A of Inl e \<Rightarrow> Inl e | Inr A_power \<Rightarrow>
        if return_info then
          (case py_abs term of Inl e \<Rightarrow> Inl e | Inr t_abs \<Rightarrow>
          (case py_abs S of Inl e \<Rightarrow> Inl e | Inr S_abs \<Rightarrow>
             Inr (A_power * S,
                  Some \<lparr>terms_used = k, used_fallback = False, info_z = Some z,
                        info_note = None, last_term_abs = Some t_abs,
                        converged = Some (t_abs < tol * S_abs), info_base = Some A\<rparr>)))
        else Inr (A_power * S, None))"

definition series_summation ::
  "complex \<Rightarrow> complex \<Rightarrow> complex \<Rightarrow> real \<Rightarrow> int \<Rightarrow> real \<Rightarrow> bool \<Rightarrow> outcome" where
  "series_summation A z alpha tol max_terms boundary_threshold return_info =
     (case py_abs z of Inl e \<Rightarrow> ([], Inl e) | Inr az \<Rightarrow>
        let effective_max = effective_max_terms max_terms az boundary_threshold in
        (case series_loop alpha z tol effective_max 1 1 1 of
           Inl e \<Rightarrow> ([], Inl e)
         | Inr (k, term, S) \<Rightarrow>
             (case no_convergence_check k effective_max term S tol z of
                Inl e \<Rightarrow> ([], Inl e)
              | Inr ws \<Rightarrow> (ws, series_result A z alpha tol return_info k term S))))"

subsection \<open>The whole function\<close>

definition aqueeq_binomial ::
  "complex \<Rightarrow> complex \<Rightarrow> complex \<Rightarrow> real \<Rightarrow> int \<Rightarrow> real \<Rightarrow> bool \<Rightarrow> outcome" where
  "aqueeq_binomial x y alpha tol max_terms boundary_threshold return_info =
     (if x = 0 \<and> y \<noteq> 0 then
        ([], case py_pow y alpha of
               Inl e \<Rightarrow> Inl e
             | Inr result \<Rightarrow> Inr (returned return_info result (plain_info False (Some 0))))
      else if y = 0 \<and> x \<noteq> 0 then
        (case (if Im x = 0 \<and> Im alpha = 0 \<and> Re x < 0 then real_odd_root x alpha
               else Inr None) of
           Inl e \<Rightarrow> ([], Inl e)
         | Inr (Some result) \<Rightarrow>
             ([], Inr (returned return_info result
                        ((plain_info False (Some 0))\<lparr>info_note := Some ''real odd root''\<rparr>)))
         | Inr None \<Rightarrow>
             ([], case py_pow x alpha of
                    Inl e \<Rightarrow> Inl e
                  | Inr result \<Rightarrow>
                      Inr (returned return_info result (plain_info False (Some 0)))))
      else if x = - y \<and> Im alpha = 0 \<and> is_integer (Re alpha) then
        ([], Inr (returned return_info 0 (plain_info False None)))
      else if x + y = 0 then
        (if Re alpha > 0 \<and> Im alpha = 0
         then ([], Inr (returned return_info 0 (plain_info True None)))
         else ([], Inl DomainError))
      else
        (case preconditioning x y of
           Inl e \<Rightarrow> ([], Inl e)
         | Inr None \<Rightarrow>
             ([EqualMagnitudeWarning],
              case log_exp alpha (x + y) of
                Inl e \<Rightarrow> Inl e
              | Inr result \<Rightarrow> Inr (returned return_info result (plain_info True None)))
         | Inr (Some (A, z)) \<Rightarrow>
             (case py_abs z of
                Inl e \<Rightarrow> ([], Inl e)
              | Inr az \<Rightarrow>
                  if az > boundary_threshold then
                    ([BoundaryWarning az boundary_threshold],
                     case log_exp alpha (x + y) of
                       Inl e \<Rightarrow> Inl e
                     | Inr result \<Rightarrow>
                         Inr (returned return_info result (plain_info True (Some z))))
                  else
                    series_summation A z alpha tol max_terms boundary_threshold return_info)))"

section \<open>The function over an arbitrary arithmetic\<close>

text \<open>
  Which branch a call takes, which warnings it emits and where its exceptions come
  from is decided by the function's control flow, whatever the arithmetic computes.
  The second model therefore takes the arithmetic as a parameter: a record of the
  operations that \<open>aqueeq_binomial\<close> applies to its numbers, each one an arbitrary
  function, over an arbitrary type \<open>'c\<close> of complex numbers and an arbitrary type
  \<open>'r\<close> of floats. What is proved of it holds of every number model, the doubles with
  their rounding, infinities and nans included: \<open>r_lt\<close> and \<open>r_le\<close> are independent
  relations (with a nan both \<open>a < b\<close> and \<open>b <= a\<close> are false), and every library
  call may raise any exception. The function itself is the source's, line for line.
\<close>

datatype 'r advisory =
    EqualMagnitude
  | Boundary 'r 'r
  | NoConvergence int 'r 'r

record ('c, 'r) diagnostics =
  diag_terms_used :: int
  diag_used_fallback :: bool
  diag_z :: "'c option"
  diag_note :: "string option"
  diag_last_term_abs :: "'r option"
  diag_converged :: "bool option"
  diag_base :: "'c option"

text \<open>
  The operations, by the expression of the source they stand for: \<open>c_is_zero\<close> is
  \<open>c == 0\<close>, \<open>c_sub_int\<close> and \<open>c_add_int\<close> are \<open>c - k\<close> and \<open>c + k\<close> for an \<open>int\<close>,
  \<open>c_div\<close> is \<open>a / b\<close> and \<open>c_div_int\<close> is \<open>c / k\<close>, \<open>c_abs\<close> is \<open>abs\<close>, \<open>c_pow\<close> is
  \<open>**\<close>, \<open>c_log\<close> and \<open>c_exp\<close> are \<open>cmath.log\<close> and \<open>cmath.exp\<close>, \<open>c_real\<close> and
  \<open>c_imag\<close> are \<open>.real\<close> and \<open>.imag\<close>, \<open>c_of_float\<close> is \<open>complex(r)\<close>;
  \<open>r_threshold_band\<close>, \<open>r_floor_relative\<close> and \<open>r_floor_absolute\<close> are the literals
  \<open>0.75\<close>, \<open>1e-16\<close> and \<open>1e-14\<close>; \<open>r_pow\<close> is \<open>**\<close> of two floats, and
  \<open>r_limit_denominator r\<close> is \<open>Fraction(r).limit_denominator(1000)\<close> as the pair of
  numerator and denominator.
\<close>

record ('c, 'r) arith =
  c_zero :: 'c
  c_one :: 'c
  c_is_zero :: "'c \<Rightarrow> bool"
  c_eq :: "'c \<Rightarrow> 'c \<Rightarrow> bool"
  c_neg :: "'c \<Rightarrow> 'c"
  c_add :: "'c \<Rightarrow> 'c \<Rightarrow> 'c"
  c_mul :: "'c \<Rightarrow> 'c \<Rightarrow> 'c"
  c_sub_int :: "'c \<Rightarrow> int \<Rightarrow> 'c"
  c_add_int :: "'c \<Rightarrow> int \<Rightarrow> 'c"
  c_div :: "'c \<Rightarrow> 'c \<Rightarrow> error + 'c"
  c_div_int :: "'c \<Rightarrow> int \<Rightarrow> error + 'c"
  c_abs :: "'c \<Rightarrow> error + 'r"
  c_pow :: "'c \<Rightarrow> 'c \<Rightarrow> error + 'c"
  c_log :: "'c \<Rightarrow> error + 'c"
  c_exp :: "'c \<Rightarrow> error + 'c"
  c_real :: "'c \<Rightarrow> 'r"
  c_imag :: "'c \<Rightarrow> 'r"
  c_of_float :: "'r \<Rightarrow> 'c"
  r_zero :: 'r
  r_threshold_band :: 'r
  r_floor_relative :: 'r
  r_floor_absolute :: 'r
  r_is_zero :: "'r \<Rightarrow> bool"
  r_lt :: "'r \<Rightarrow> 'r \<Rightarrow> bool"
  r_le :: "'r \<Rightarrow> 'r \<Rightarrow> bool"
  r_mul :: "'r \<Rightarrow> 'r \<Rightarrow> 'r"
  r_neg :: "'r \<Rightarrow> 'r"
  r_abs :: "'r \<Rightarrow> 'r"
  r_pow :: "'r \<Rightarrow> 'r \<Rightarrow> error + 'r"
  r_is_integer :: "'r \<Rightarrow> bool"
  r_limit_denominator :: "'r \<Rightarrow> error + (int \<times> int)"

definition plain_diagnostics :: "bool \<Rightarrow> 'c option \<Rightarrow> ('c, 'r) diagnostics" where
  "plain_diagnostics fb zo =
     \<lparr>diag_terms_used = 0, diag_used_fallback = fb, diag_z = zo, diag_note = None,
      diag_last_term_abs = None, diag_converged = None, diag_base = None\<rparr>"

definition returned_with ::
  "bool \<Rightarrow> 'c \<Rightarrow> ('c, 'r) diagnostics \<Rightarrow> 'c \<times> ('c, 'r) diagnostics option" where
  "returned_with return_info result i = (result, if return_info then Some i else None)"

text \<open>\<open>cmath.exp(alpha * cmath.log(w))\<close>\<close>

definition log_exp_with :: "('c, 'r) arith \<Rightarrow> 'c \<Rightarrow> 'c \<Rightarrow> error + 'c" where
  "log_exp_with L alpha w =
     (case c_log L w of Inl e \<Rightarrow> Inl e | Inr l \<Rightarrow> c_exp L (c_mul L alpha l))"

text \<open>The \<open>try\<close> block of lines 31 to 40.\<close>

definition real_odd_root_with :: "('c, 'r) arith \<Rightarrow> 'c \<Rightarrow> 'c \<Rightarrow> error + 'c option" where
  "real_odd_root_with L x alpha =
     (case r_limit_denominator L (c_real L alpha) of
        Inl e \<Rightarrow> if caught e then Inr None else Inl e
      | Inr fr \<Rightarrow>
          if snd fr mod 2 = 1 then
            (case r_pow L (r_abs L (c_real L x)) (c_real L alpha) of
               Inl e \<Rightarrow> if caught e then Inr None else Inl e
             | Inr abs_root \<Rightarrow> Inr (Some (c_of_float L (r_neg L abs_root))))
          else Inr None)"

text \<open>
  Lines 65 to 71. The preconditioning uses three operations only, \<open>abs\<close>, \<open><\<close> and
  \<open>/\<close>, and takes them one by one (\<open>ax > ay\<close> is \<open>ay < ax\<close>).
\<close>

definition preconditioning_with ::
  "('c \<Rightarrow> error + 'r) \<Rightarrow> ('r \<Rightarrow> 'r \<Rightarrow> bool) \<Rightarrow> ('c \<Rightarrow> 'c \<Rightarrow> error + 'c) \<Rightarrow> 'c \<Rightarrow> 'c
   \<Rightarrow> error + ('c \<times> 'c) option" where
  "preconditioning_with abs_of lt quot x y =
     (case abs_of x of Inl e \<Rightarrow> Inl e | Inr ax \<Rightarrow>
     (case abs_of y of Inl e \<Rightarrow> Inl e | Inr ay \<Rightarrow>
        if lt ax ay then
          (case quot x y of Inl e \<Rightarrow> Inl e | Inr z \<Rightarrow> Inr (Some (y, z)))
        else if lt ay ax then
          (case quot y x of Inl e \<Rightarrow> Inl e | Inr z \<Rightarrow> Inr (Some (x, z)))
        else Inr None))"

definition effective_max_terms_with :: "('c, 'r) arith \<Rightarrow> int \<Rightarrow> 'r \<Rightarrow> 'r \<Rightarrow> int" where
  "effective_max_terms_with L max_terms az boundary_threshold =
     (if r_lt L (r_threshold_band L) az \<and> r_le L az boundary_threshold
      then max max_terms (max_terms * 3)
      else max_terms)"

function series_loop_with ::
  "('c, 'r) arith \<Rightarrow> 'c \<Rightarrow> 'c \<Rightarrow> 'r \<Rightarrow> int \<Rightarrow> int \<Rightarrow> 'c \<Rightarrow> 'c \<Rightarrow> error + (int \<times> 'c \<times> 'c)" where
  "series_loop_with L alpha z tol effective_max k term S =
     (if k \<le> effective_max then
        (case c_div_int L (c_mul L (c_add_int L (c_sub_int L alpha k) 1) z) k of
           Inl e \<Rightarrow> Inl e
         | Inr multiplier \<Rightarrow>
             (case c_abs L (c_mul L term multiplier) of Inl e \<Rightarrow> Inl e | Inr t_abs \<Rightarrow>
             (case c_abs L S of Inl e \<Rightarrow> Inl e | Inr S_abs \<Rightarrow>
                if r_lt L t_abs (r_mul L (r_floor_relative L) S_abs)
                   \<or> r_lt L t_abs (r_floor_absolute L)
                then Inr (k, c_mul L term multiplier, S)
                else
                  (case c_abs L (c_add L S (c_mul L term multiplier)) of
                     Inl e \<Rightarrow> Inl e
                   | Inr S_abs' \<Rightarrow>
                       if r_lt L t_abs (r_mul L tol S_abs')
                       then Inr (k, c_mul L term multiplier, c_add L S (c_mul L term multiplier))
                       else series_loop_with L alpha z tol effective_max (k + 1)
                              (c_mul L term multiplier)
                              (c_add L S (c_mul L term multiplier))))))
      else Inr (k, term, S))"
  by pat_completeness auto
termination
  by (relation "measure (\<lambda>(L, alpha, z, tol, effective_max, k, term, S).
                           nat (effective_max + 1 - k))")
     auto

declare series_loop_with.simps [simp del]

text \<open>
  Line 112: \<open>abs(term) >= tol * abs(S)\<close> is asked with \<open>r_le\<close>, and is not assumed to
  be the negation of the loop's \<open>abs(term) < tol * abs(S)\<close>.
\<close>

definition no_convergence_check_with ::
  "('c, 'r) arith \<Rightarrow> int \<Rightarrow> int \<Rightarrow> 'c \<Rightarrow> 'c \<Rightarrow> 'r \<Rightarrow> 'c \<Rightarrow> error + 'r advisory list" where
  "no_convergence_check_with L k effective_max term S tol z =
     (if k \<ge> effective_max then
        (case c_abs L term of Inl e \<Rightarrow> Inl e | Inr t_abs \<Rightarrow>
        (case c_abs L S of Inl e \<Rightarrow> Inl e | Inr S_abs \<Rightarrow>
           if r_le L (r_mul L tol S_abs) t_abs then
             (case c_abs L z of Inl e \<Rightarrow> Inl e | Inr az \<Rightarrow>
                Inr [NoConvergence effective_max az t_abs])
           else Inr []))
      else Inr [])"

definition series_result_with ::
  "('c, 'r) arith \<Rightarrow> 'c \<Rightarrow> 'c \<Rightarrow> 'c \<Rightarrow> 'r \<Rightarrow> bool \<Rightarrow> int \<Rightarrow> 'c \<Rightarrow> 'c
   \<Rightarrow> error + 'c \<times> ('c, 'r) diagnostics option" where
  "series_result_with L A z alpha tol return_info k term S =
     (case log_exp_with L alpha A of Inl e \<Rightarrow> Inl e | Inr A_power \<Rightarrow>
        if return_info then
          (case c_abs L term of Inl e \<Rightarrow> Inl e | Inr t_abs \<Rightarrow>
          (case c_abs L S of Inl e \<Rightarrow> Inl e | Inr S_abs \<Rightarrow>
             Inr (c_mul L A_power S,
                  Some \<lparr>diag_terms_used = k, diag_used_fallback = False, diag_z = Some z,
                        diag_note = None, diag_last_term_abs = Some t_abs,
                        diag_converged = Some (r_lt L t_abs (r_mul L tol S_abs)),
                        diag_base = Some A\<rparr>)))
        else Inr (c_mul L A_power S, None))"

definition series_summation_with ::
  "('c, 'r) arith \<Rightarrow> 'c \<Rightarrow> 'c \<Rightarrow> 'c \<Rightarrow> 'r \<Rightarrow> int \<Rightarrow> 'r \<Rightarrow> bool
   \<Rightarrow> 'r advisory list \<times> (error + 'c \<times> ('c, 'r) diagnostics option)" where
  "series_summation_with L A z alpha tol max_terms boundary_threshold return_info =
     (case c_abs L z of Inl e \<Rightarrow> ([], Inl e) | Inr az \<Rightarrow>
        let effective_max = effective_max_terms_with L max_terms az boundary_threshold in
        (case series_loop_with L alpha z tol effective_max 1 (c_one L) (c_one L) of
           Inl e \<Rightarrow> ([], Inl e)
         | Inr (k, term, S) \<Rightarrow>
             (case no_convergence_check_with L k effective_max term S tol z of
                Inl e \<Rightarrow> ([], Inl e)
              | Inr ws \<Rightarrow> (ws, series_result_with L A z alpha tol return_info k term S))))"

definition aqueeq_binomial_with ::
  "('c, 'r) arith \<Rightarrow> 'c \<Rightarrow> 'c \<Rightarrow> 'c \<Rightarrow> 'r \<Rightarrow> int \<Rightarrow> 'r \<Rightarrow> bool
   \<Rightarrow> 'r advisory list \<times> (error + 'c \<times> ('c, 'r) diagnostics option)" where
  "aqueeq_binomial_with L x y alpha tol max_terms boundary_threshold return_info =
     (if c_is_zero L x \<and> \<not> c_is_zero L y then
        ([], case c_pow L y alpha of
               Inl e \<Rightarrow> Inl e
             | Inr result \<Rightarrow>
                 Inr (returned_with return_info result
                        (plain_diagnostics False (Some (c_zero L)))))
      else if c_is_zero L y \<and> \<not> c_is_zero L x then
        (case (if r_is_zero L (c_imag L x) \<and> r_is_zero L (c_imag L alpha)
                  \<and> r_lt L (c_real L x) (r_zero L)
               then real_odd_root_with L x alpha
               else Inr None) of
           Inl e \<Rightarrow> ([], Inl e)
         | Inr (Some result) \<Rightarrow>
             ([], Inr (returned_with return_info result
                        ((plain_diagnostics False (Some (c_zero L)))
                           \<lparr>diag_note := Some ''real odd root''\<rparr>)))
         | Inr None \<Rightarrow>
             ([], case c_pow L x alpha of
                    Inl e \<Rightarrow> Inl e
                  | Inr result \<Rightarrow>
                      Inr (returned_with return_info result
                             (plain_diagnostics False (Some (c_zero L))))))
      else if c_eq L x (c_neg L y) \<and> r_is_zero L (c_imag L alpha)
              \<and> r_is_integer L (c_real L alpha) then
        ([], Inr (returned_with return_info (c_zero L) (plain_diagnostics False None)))
      else if c_is_zero L (c_add L x y) then
        (if r_lt L (r_zero L) (c_real L alpha) \<and> r_is_zero L (c_imag L alpha)
         then ([], Inr (returned_with return_info (c_zero L) (plain_diagnostics True None)))
         else ([], Inl DomainError))
      else
        (case preconditioning_with (c_abs L) (r_lt L) (c_div L) x y of
           Inl e \<Rightarrow> ([], Inl e)
         | Inr None \<Rightarrow>
             ([EqualMagnitude],
              case log_exp_with L alpha (c_add L x y) of
                Inl e \<Rightarrow> Inl e
              | Inr result \<Rightarrow>
                  Inr (returned_with return_info result (plain_diagnostics True None)))
         | Inr (Some (A, z)) \<Rightarrow>
             (case c_abs L z of
                Inl e \<Rightarrow> ([], Inl e)
              | Inr az \<Rightarrow>
                  if r_lt L boundary_threshold az then
                    ([Boundary az boundary_threshold],
                     case log_exp_with L alpha (c_add L x y) of
                       Inl e \<Rightarrow> Inl e
                     | Inr result \<Rightarrow>
                         Inr (returned_with return_info result
                                (plain_diagnostics True (Some z))))
                  else
                    series_summation_with L A z alpha tol max_terms boundary_threshold
                      return_info)))"

text \<open>
  An exception of the library: one that some operation of the arithmetic raises. The
  function's own \<open>raise\<close> (line 59) is not an operation of the arithmetic.
\<close>

definition library_raises :: "('c, 'r) arith \<Rightarrow> error \<Rightarrow> bool" where
  "library_raises L e \<longleftrightarrow>
     (\<exists>a b. c_pow L a b = Inl e) \<or> (\<exists>a b. r_pow L a b = Inl e)
     \<or> (\<exists>a. r_limit_denominator L a = Inl e) \<or> (\<exists>a. c_abs L a = Inl e)
     \<or> (\<exists>a b. c_div L a b = Inl e) \<or> (\<exists>a k. c_div_int L a k = Inl e)
     \<or> (\<exists>a. c_log L a = Inl e) \<or> (\<exists>a. c_exp L a = Inl e)"

subsection \<open>Exact arithmetic as an instance\<close>

text \<open>
  The exact numbers of the first model are one arithmetic. With it the function over
  an arbitrary arithmetic is the function \<open>aqueeq_binomial\<close> above
  (\<open>exact_aqueeq_binomial\<close> below), up to the names of the warnings and of the keys of
  the diagnostics.
\<close>

definition exact_arith :: "(complex, real) arith" where
  "exact_arith =
     \<lparr>c_zero = 0, c_one = 1, c_is_zero = (\<lambda>c. c = 0), c_eq = (=), c_neg = uminus,
      c_add = (+), c_mul = (*),
      c_sub_int = (\<lambda>c k. c - of_int k), c_add_int = (\<lambda>c k. c + of_int k),
      c_div = py_div, c_div_int = (\<lambda>c k. py_div c (of_int k)),
      c_abs = py_abs, c_pow = py_pow, c_log = cmath_log, c_exp = cmath_exp,
      c_real = Re, c_imag = Im, c_of_float = of_real,
      r_zero = 0, r_threshold_band = 0.75,
      r_floor_relative = 1 / 10 ^ 16, r_floor_absolute = 1 / 10 ^ 14,
      r_is_zero = (\<lambda>r. r = 0), r_lt = (<), r_le = (\<le>), r_mul = (*),
      r_neg = uminus, r_abs = abs,
      r_pow = (\<lambda>a b. case py_pow (of_real a) (of_real b) of
                          Inl e \<Rightarrow> Inl e | Inr c \<Rightarrow> Inr (Re c)),
      r_is_integer = is_integer,
      r_limit_denominator = (\<lambda>r. limit_denominator (as_integer_ratio r) 1000)\<rparr>"

fun warning_of :: "real advisory \<Rightarrow> runtime_warning" where
  "warning_of EqualMagnitude = EqualMagnitudeWarning"
| "warning_of (Boundary az boundary_threshold) = BoundaryWarning az boundary_threshold"
| "warning_of (NoConvergence n az t_abs) = NoConvergenceWarning n az t_abs"

definition info_of :: "(complex, real) diagnostics \<Rightarrow> info" where
  "info_of d =
     \<lparr>terms_used = diag_terms_used d, used_fallback = diag_used_fallback d,
      info_z = diag_z d, info_note = diag_note d, last_term_abs = diag_last_term_abs d,
      converged = diag_converged d, info_base = diag_base d\<rparr>"

definition outcome_of ::
  "real advisory list \<times> (error + complex \<times> (complex, real) diagnostics option) \<Rightarrow> outcome" where
  "outcome_of r =
     (map warning_of (fst r),
      case snd r of Inl e \<Rightarrow> Inl e | Inr (v, d) \<Rightarrow> Inr (v, map_option info_of d))"

section \<open>Double arithmetic for the preconditioning\<close>

text \<open>
  The preconditioning of lines 65 to 71 on doubles. A finite double is the real
  number it stands for; the operations are those of IEEE 754 binary64 in the default
  rounding mode: the exact result, rounded to the nearest double, to the one with
  the even significand on a tie. \<open>binade r\<close> is the exponent of the spacing of the
  doubles around \<open>r\<close>: the doubles next to \<open>r\<close> are the multiples of
  \<open>2\<^bsup>binade r - 52\<^esup>\<close>, and below \<open>2\<^sup>-\<^sup>1\<^sup>0\<^sup>2\<^sup>2\<close> the spacing stays that of the
  subnormal numbers. An overflow to an infinity is not represented (the rounding has
  no largest double), neither is the sign of a zero: the operations are the machine's
  on computations whose values stay below \<open>2\<^sup>1\<^sup>0\<^sup>2\<^sup>4\<close> in magnitude, as all those
  evaluated below do.
\<close>

definition rne :: "real \<Rightarrow> int" where
  "rne r = (let n = \<lfloor>r\<rfloor> in
              if r - of_int n < 1 / 2 then n
              else if 1 / 2 < r - of_int n then n + 1
              else if even n then n else n + 1)"

definition binade :: "real \<Rightarrow> int" where
  "binade r = max \<lfloor>log 2 \<bar>r\<bar>\<rfloor> (- 1022)"

definition round_double :: "real \<Rightarrow> real" where
  "round_double r =
     (if r = 0 then 0
      else of_int (rne (r / 2 powi (binade r - 52))) * 2 powi (binade r - 52))"

text \<open>
  \<open>abs(c)\<close> of a complex with finite parts is the C library's \<open>hypot\<close> of the parts,
  and raises \<open>OverflowError\<close> when that is an infinity. It is taken to be the modulus
  correctly rounded, which is what CPython returns at the operands used below; a
  \<open>hypot\<close> that is off by less than one unit in the last place would still order
  the first pair of operands below as stated, whose magnitudes are more than two
  units apart.
\<close>

definition double_abs :: "complex \<Rightarrow> error + real" where
  "double_abs c =
     (let r = round_double (cmod c) in if r < 2 ^ 1024 then Inr r else Inl OverflowError)"

text \<open>
  \<open>a / b\<close> of two complex numbers is CPython's \<open>_Py_c_quot\<close>: it raises
  \<open>ZeroDivisionError\<close> for \<open>b == 0\<close> and otherwise divides by the component of \<open>b\<close>
  of larger magnitude first, with nine double operations, each of them rounded.
\<close>

definition double_quot :: "complex \<Rightarrow> complex \<Rightarrow> error + complex" where
  "double_quot a b =
     (if b = 0 then Inl ZeroDivisionError
      else if \<bar>Re b\<bar> \<ge> \<bar>Im b\<bar> then
        (let ratio = round_double (Im b / Re b);
             denom = round_double (Re b + round_double (Im b * ratio))
         in Inr (Complex
                   (round_double (round_double (Re a + round_double (Im a * ratio)) / denom))
                   (round_double (round_double (Im a - round_double (Re a * ratio)) / denom))))
      else
        (let ratio = round_double (Re b / Im b);
             denom = round_double (round_double (Re b * ratio) + Im b)
         in Inr (Complex
                   (round_double (round_double (round_double (Re a * ratio) + Im a) / denom))
                   (round_double (round_double (round_double (Im a * ratio) - Re a) / denom)))))"

text \<open>
  Two operands of nearly the same magnitude, and the quotient that the division
  above stores for them. As Python writes them, \<open>close_x\<close> is
  \<open>-0.7310559749045645-0.6635478707079207j\<close>, \<open>close_y\<close> is
  \<open>-0.7738081524391478-0.613155411281179j\<close> and \<open>close_z\<close> is
  \<open>0.9977598360303565+0.06689775485527308j\<close>; \<open>root_two\<close> is the double
  \<open>1.4142135623730951\<close>, the one nearest to the square root of two.
\<close>

definition close_x :: complex where
  "close_x = Complex (- (6584766832334343 / 2 ^ 53)) (- (5976707886525355 / 2 ^ 53))"

definition close_y :: complex where
  "close_y = Complex (- (1742461053490599 / 2 ^ 51)) (- (2761406481766121 / 2 ^ 52))"

definition close_z :: complex where
  "close_z = Complex (8987021651503121 / 2 ^ 53) (2410245630705045 / 2 ^ 55)"

definition root_two :: real where
  "root_two = 6369051672525773 / 2 ^ 52"

section \<open>Facts about the library operations\<close>

lemma Arg_of_real_pos: "0 < r \<Longrightarrow> Arg (of_real r) = 0"
  by (rule cis_Arg_unique) (simp_all add: sgn_eq complex_eq_iff)

lemma principal_log_of_real: "0 < r \<Longrightarrow> principal_log (of_real r) = of_real (ln r)"
  by (simp add: principal_log_def Arg_of_real_pos complex_eq_iff)

text \<open>The logarithm is a logarithm, and it is the principal one.\<close>

lemma exp_principal_log: "c \<noteq> 0 \<Longrightarrow> exp (principal_log c) = c"
proof -
  assume "c \<noteq> 0"
  have "exp (principal_log c) = of_real (exp (ln (cmod c))) * cis (Arg c)"
    by (simp add: principal_log_def exp_eq_polar)
  also have "\<dots> = rcis (cmod c) (Arg c)"
    using \<open>c \<noteq> 0\<close> by (simp add: rcis_def)
  finally show ?thesis by (simp add: rcis_cmod_Arg)
qed

lemma Im_principal_log: "- pi < Im (principal_log c) \<and> Im (principal_log c) \<le> pi"
  by (simp add: principal_log_def Arg_bounded)

lemma exp_real_power:
  "0 < a \<Longrightarrow> exp (of_real b * principal_log (of_real a)) = of_real (a powr b)"
  by (simp add: principal_log_of_real powr_def exp_of_real of_real_mult [symmetric]
      del: of_real_mult)

lemma exp_nat_power: "a \<noteq> 0 \<Longrightarrow> exp (of_nat n * principal_log a) = a ^ n"
  by (simp add: exp_of_nat_mult exp_principal_log)

lemma py_pow_principal:
  "a \<noteq> 0 \<Longrightarrow> py_pow a b = range_checked (exp (b * principal_log a))"
  by (simp add: py_pow_def range_checked_def finite_complex_def finite_float_def
      float_max_bound_def)

lemma finite_complex_numeral: "numeral n < (2::real) ^ 1024 \<Longrightarrow> finite_complex (numeral n)"
  by (simp add: finite_complex_def finite_float_def float_max_bound_def)

subsection \<open>The two versions of \<open>limit_denominator\<close>\<close>

lemma limit_loop_exit:
  assumes "limit_loop M p0 q0 p1 q1 n d = Inr (p0', q0', p1', q1', n', d')"
    and "N = p1 * n + p0 * d" and "D = q1 * n + q0 * d" and "\<bar>p1 * q0 - p0 * q1\<bar> = 1"
    and "0 \<le> q0" and "q0 \<le> M" and "0 \<le> q1" and "q1 \<le> M" and "0 < q0 + q1"
    and "0 \<le> d" and "0 < q1 \<longrightarrow> 0 \<le> n"
  shows "N = p1' * n' + p0' * d' \<and> D = q1' * n' + q0' * d' \<and> \<bar>p1' * q0' - p0' * q1'\<bar> = 1
         \<and> 0 \<le> q0' \<and> q0' \<le> M \<and> 0 < q1' \<and> q1' \<le> M \<and> 0 < d'"
  using assms
proof (induction M p0 q0 p1 q1 n d rule: limit_loop.induct)
  case (1 M p0 q0 p1 q1 n d)
  have d0: "d \<noteq> 0"
    using "1.prems"(1) by (subst (asm) limit_loop.simps) (simp split: if_splits)
  then have dpos: "0 < d" using "1.prems"(10) by simp
  define a where "a = n div d"
  define q2 where "q2 = q0 + a * q1"
  have aq: "0 \<le> a * q1"
  proof (cases "q1 = 0")
    case True
    then show ?thesis by simp
  next
    case False
    then have "0 \<le> n" using "1.prems"(7,11) by simp
    then have "0 \<le> a" unfolding a_def using dpos by (simp add: pos_imp_zdiv_nonneg_iff)
    then show ?thesis using "1.prems"(7) by simp
  qed
  show ?case
  proof (cases "q2 > M")
    case True
    then have "limit_loop M p0 q0 p1 q1 n d = Inr (p0, q0, p1, q1, n, d)"
      using d0 by (subst limit_loop.simps) (simp add: a_def q2_def Let_def)
    with "1.prems"(1) have eq: "p0' = p0" "q0' = q0" "p1' = p1" "q1' = q1" "n' = n" "d' = d"
      by simp_all
    have "q1 \<noteq> 0"
    proof
      assume "q1 = 0"
      then have "q2 = q0" by (simp add: q2_def)
      with True "1.prems"(6) show False by simp
    qed
    then have "0 < q1" using "1.prems"(7) by simp
    then show ?thesis
      unfolding eq using "1.prems" dpos by simp
  next
    case False
    then have rec: "limit_loop M p0 q0 p1 q1 n d
                  = limit_loop M p1 q1 (p0 + a * p1) q2 d (n - a * d)"
      using d0 by (subst limit_loop.simps) (simp add: a_def q2_def Let_def)
    have i1: "N = (p0 + a * p1) * d + p1 * (n - a * d)"
      using "1.prems"(2) by (simp add: algebra_simps)
    have i2: "D = q2 * d + q1 * (n - a * d)"
      using "1.prems"(3) by (simp add: q2_def algebra_simps)
    have "(p0 + a * p1) * q1 - p1 * q2 = - (p1 * q0 - p0 * q1)"
      by (simp add: q2_def algebra_simps)
    then have i3: "\<bar>(p0 + a * p1) * q1 - p1 * q2\<bar> = 1"
      using "1.prems"(4) by simp
    have i5: "0 \<le> q2" using aq "1.prems"(5) by (simp add: q2_def)
    have i6: "0 < q1 + q2" using aq "1.prems"(9) by (simp add: q2_def)
    have "n - a * d = n mod d" by (simp add: a_def minus_div_mult_eq_mod)
    then have i7: "0 \<le> n - a * d" using dpos by simp
    show ?thesis
      using "1.IH" [OF d0 a_def q2_def False _ i1 i2 i3 "1.prems"(7) "1.prems"(8) i5 _ i6 i7]
        "1.prems"(1) rec False dpos
      by simp
  qed
qed


lemma closer_bound_test:
  fixes N D p0 q0 p1 q1 n d k :: int
  assumes N: "N = p1 * n + p0 * d" and D: "D = q1 * n + q0 * d"
    and s: "\<bar>p1 * q0 - p0 * q1\<bar> = 1"
    and q1: "0 < q1" and Q: "0 < q0 + k * q1" and d: "0 < d" and Dpos: "0 < D"
  shows "(\<bar>Fract p1 q1 - Fract N D\<bar> \<le> \<bar>Fract (p0 + k * p1) (q0 + k * q1) - Fract N D\<bar>)
         \<longleftrightarrow> (2 * d * (q0 + k * q1) \<le> D)"
proof -
  define Q where "Q = q0 + k * q1"
  define P where "P = p0 + k * p1"
  define s where "s = p1 * q0 - p0 * q1"
  have Qpos: "0 < Q" using Q by (simp add: Q_def)
  have sabs: "\<bar>s\<bar> = 1" using assms(3) by (simp add: s_def)
  have e2: "p1 * D - N * q1 = s * d"
    by (simp add: N D s_def algebra_simps)
  have e1: "P * D - N * Q = s * (k * d - n)"
    by (simp add: N D s_def P_def Q_def algebra_simps)
  have e3: "q1 * (n - k * d) = D - d * Q"
    by (simp add: D Q_def algebra_simps)
  have b2: "Fract p1 q1 - Fract N D = Fract (s * d) (q1 * D)"
    using q1 Dpos by (simp add: e2 [symmetric])
  have b1: "Fract P Q - Fract N D = Fract (s * (k * d - n)) (Q * D)"
    using Qpos Dpos by (simp add: e1 [symmetric])
  have a2: "\<bar>Fract (s * d) (q1 * D)\<bar> = Fract d (q1 * D)"
    using sabs d q1 Dpos by (simp add: abs_mult)
  have a1: "\<bar>Fract (s * (k * d - n)) (Q * D)\<bar> = Fract \<bar>k * d - n\<bar> (Q * D)"
    using sabs Qpos Dpos by (simp add: abs_mult)
  have "(\<bar>Fract p1 q1 - Fract N D\<bar> \<le> \<bar>Fract P Q - Fract N D\<bar>)
        \<longleftrightarrow> Fract d (q1 * D) \<le> Fract \<bar>k * d - n\<bar> (Q * D)"
    by (simp only: b1 b2 a1 a2)
  also have "\<dots> \<longleftrightarrow> (of_int d :: rat) / (of_int q1 * of_int D)
                      \<le> of_int \<bar>k * d - n\<bar> / (of_int Q * of_int D)"
    by (simp add: Fract_of_int_quotient)
  also have "\<dots> \<longleftrightarrow> (of_int d :: rat) * of_int Q \<le> of_int \<bar>k * d - n\<bar> * of_int q1"
    using q1 Qpos Dpos by (simp add: field_simps)
  also have "\<dots> \<longleftrightarrow> d * Q \<le> \<bar>k * d - n\<bar> * q1"
    by (simp only: of_int_mult [symmetric] of_int_le_iff)
  also have "\<bar>k * d - n\<bar> * q1 = \<bar>D - d * Q\<bar>"
  proof -
    have "\<bar>k * d - n\<bar> * q1 = \<bar>q1 * (n - k * d)\<bar>"
      using q1 by (simp add: abs_mult abs_minus_commute)
    then show ?thesis by (simp only: e3)
  qed
  also have "d * Q \<le> \<bar>D - d * Q\<bar> \<longleftrightarrow> 2 * d * Q \<le> D"
  proof -
    define m where "m = d * Q"
    have "0 < m" using d Qpos by (simp add: m_def)
    then have "m \<le> \<bar>D - m\<bar> \<longleftrightarrow> 2 * m \<le> D"
      using Dpos by (auto simp add: abs_if)
    then show ?thesis by (simp add: m_def mult.assoc)
  qed
  finally show ?thesis by (simp add: P_def Q_def)
qed


lemma coprime_of_unit_determinant:
  fixes a b c d :: int
  assumes "\<bar>a * d - c * b\<bar> = 1"
  shows "coprime a b"
proof (rule coprimeI)
  fix e assume "e dvd a" and "e dvd b"
  then have "e dvd a * d - c * b" by simp
  then have "e dvd \<bar>a * d - c * b\<bar>" by simp
  then show "is_unit e" using assms by simp
qed

lemma limit_denominator_versions_agree:
  assumes "0 < snd fr"
  shows "limit_denominator_by_distance fr M = limit_denominator fr M"
proof (cases "M < 1 \<or> snd fr \<le> M")
  case True
  then show ?thesis
    by (auto simp add: limit_denominator_by_distance_def limit_denominator_def Let_def)
next
  case False
  then have M: "1 \<le> M" and big: "M < snd fr" by simp_all
  show ?thesis
  proof (cases "limit_loop M 0 1 1 0 (fst fr) (snd fr)")
    case (Inl e)
    with False show ?thesis
      by (simp add: limit_denominator_by_distance_def limit_denominator_def Let_def)
  next
    case (Inr st)
    obtain p0 q0 p1 q1 n d where st: "st = (p0, q0, p1, q1, n, d)"
      by (cases st) auto
    have l: "limit_loop M 0 1 1 0 (fst fr) (snd fr) = Inr (p0, q0, p1, q1, n, d)"
      using Inr st by simp
    have inv: "fst fr = p1 * n + p0 * d \<and> snd fr = q1 * n + q0 * d
               \<and> \<bar>p1 * q0 - p0 * q1\<bar> = 1
               \<and> 0 \<le> q0 \<and> q0 \<le> M \<and> 0 < q1 \<and> q1 \<le> M \<and> 0 < d"
      using limit_loop_exit [OF l, of "fst fr" "snd fr"] M assms by simp
    define k where "k = (M - q0) div q1"
    have k0: "0 \<le> k" unfolding k_def using inv by (simp add: pos_imp_zdiv_nonneg_iff)
    have Q: "0 < q0 + k * q1"
    proof (cases "q0 = 0")
      case True
      have "0 < M div q1" using inv by (simp add: pos_imp_zdiv_pos_iff)
      then have "1 \<le> k" unfolding k_def using True by simp
      then have "q1 \<le> k * q1" using inv by simp
      then show ?thesis using inv True by simp
    next
      case False
      moreover have "0 \<le> k * q1" using k0 inv by simp
      ultimately show ?thesis using inv by simp
    qed
    have t: "(\<bar>Fract p1 q1 - Fract (fst fr) (snd fr)\<bar>
                \<le> \<bar>Fract (p0 + k * p1) (q0 + k * q1) - Fract (fst fr) (snd fr)\<bar>)
             \<longleftrightarrow> (2 * d * (q0 + k * q1) \<le> snd fr)"
      using closer_bound_test [of "fst fr" p1 n p0 d "snd fr" q1 q0 k] inv Q assms by simp
    have c2: "coprime p1 q1"
      using coprime_of_unit_determinant [of p1 q0 p0 q1] inv by simp
    have "(p0 + k * p1) * q1 - p1 * (q0 + k * q1) = - (p1 * q0 - p0 * q1)"
      by (simp add: algebra_simps)
    then have "\<bar>(p0 + k * p1) * q1 - p1 * (q0 + k * q1)\<bar> = \<bar>p1 * q0 - p0 * q1\<bar>"
      by (simp only: abs_minus_cancel)
    then have "\<bar>(p0 + k * p1) * q1 - p1 * (q0 + k * q1)\<bar> = 1" using inv by simp
    then have c1: "coprime (p0 + k * p1) (q0 + k * q1)"
      by (rule coprime_of_unit_determinant)
    have n2: "quotient_of (Fract p1 q1) = (p1, q1)"
      using c2 inv by (simp add: quotient_of_Fract)
    have n1: "quotient_of (Fract (p0 + k * p1) (q0 + k * q1)) = (p0 + k * p1, q0 + k * q1)"
      using c1 Q by (simp add: quotient_of_Fract)
    have q1: "q1 \<noteq> 0" and Q0: "q0 + k * q1 \<noteq> 0" using inv Q by simp_all
    have L: "limit_denominator fr M =
               (if 2 * d * (q0 + k * q1) \<le> snd fr then Inr (p1, q1)
                else Inr (p0 + k * p1, q0 + k * q1))"
      using False q1 by (simp add: limit_denominator_def Let_def l k_def)
    have R: "limit_denominator_by_distance fr M =
               (if \<bar>Fract p1 q1 - Fract (fst fr) (snd fr)\<bar>
                     \<le> \<bar>Fract (p0 + k * p1) (q0 + k * q1) - Fract (fst fr) (snd fr)\<bar>
                then Inr (quotient_of (Fract p1 q1))
                else Inr (quotient_of (Fract (p0 + k * p1) (q0 + k * q1))))"
      using False q1 Q0 by (simp add: limit_denominator_by_distance_def Let_def l k_def)
    show ?thesis
      unfolding L R by (simp only: t n1 n2)
  qed
qed

lemma float_ratio_denominator_pos: "0 < d \<Longrightarrow> 0 < snd (float_ratio n r d)"
  by (induction n arbitrary: r d) simp_all

lemma as_integer_ratio_versions_agree:
  "limit_denominator_by_distance (as_integer_ratio r) M = limit_denominator (as_integer_ratio r) M"
  by (rule limit_denominator_versions_agree)
     (simp add: as_integer_ratio_def float_ratio_denominator_pos)

section \<open>The edge cases\<close>

subsection \<open>A zero first operand\<close>

text \<open>
  C7. For every \<open>y \<noteq> 0\<close> and every \<open>alpha\<close>, \<open>aqueeq_binomial(0, y, alpha)\<close> is the
  principal complex power of \<open>y\<close>: it is \<open>exp (alpha * log y)\<close> for the logarithm
  that inverts \<open>exp\<close> and has its imaginary part in \<open>(-\<pi>, \<pi>]\<close>. No warning is
  emitted, and the diagnostics, when requested, report \<open>terms_used = 0\<close> and
  \<open>used_fallback = False\<close>. The value is returned whenever it is a pair of doubles;
  otherwise \<open>y ** alpha\<close> itself raises.
\<close>

theorem zero_operand_identity:
  assumes "y \<noteq> 0"
  shows "aqueeq_binomial 0 y alpha tol max_terms boundary_threshold return_info =
          ([], if finite_complex (exp (alpha * principal_log y))
               then Inr (exp (alpha * principal_log y),
                         if return_info
                         then Some \<lparr>terms_used = 0, used_fallback = False, info_z = Some 0,
                                     info_note = None, last_term_abs = None, converged = None,
                                     info_base = None\<rparr>
                         else None)
               else Inl OverflowError)
         \<and> exp (principal_log y) = y
         \<and> - pi < Im (principal_log y) \<and> Im (principal_log y) \<le> pi"
  using assms
  by (simp add: aqueeq_binomial_def py_pow_principal range_checked_def returned_def
      plain_info_def exp_principal_log Im_principal_log)

theorem zero_operand_identity_witness:
  "(2::complex) \<noteq> 0 \<and>
   aqueeq_binomial 0 2 3 (1 / 10 ^ 12) 100 (9 / 10) True =
     ([], Inr (8, Some \<lparr>terms_used = 0, used_fallback = False, info_z = Some 0,
                          info_note = None, last_term_abs = None, converged = None,
                          info_base = None\<rparr>))"
proof -
  have e: "exp (3 * principal_log 2) = (8::complex)"
    using exp_nat_power [of "2::complex" 3] by simp
  have ne: "(2::complex) \<noteq> 0" by simp
  show ?thesis
    using zero_operand_identity [OF ne, of 3 "1 / 10 ^ 12" 100 "9 / 10" True]
    by (simp add: e finite_complex_numeral)
qed

subsection \<open>Cancelling operands\<close>

text \<open>
  C10. For every real integer \<open>alpha\<close>, zero and the negative integers included,
  \<open>aqueeq_binomial(0, 0, alpha)\<close> returns \<open>0\<close> and raises nothing: the test
  \<open>x == -y\<close> with an integer exponent comes before the zero-sum test. No warning is
  emitted.
\<close>

theorem zero_zero_integer_power:
  assumes "Im alpha = 0" and "is_integer (Re alpha)"
  shows "aqueeq_binomial 0 0 alpha tol max_terms boundary_threshold return_info =
          ([], Inr (0, if return_info
                       then Some \<lparr>terms_used = 0, used_fallback = False, info_z = None,
                                   info_note = None, last_term_abs = None, converged = None,
                                   info_base = None\<rparr>
                       else None))"
  using assms by (simp add: aqueeq_binomial_def returned_def plain_info_def)

theorem zero_zero_integer_power_witness:
  "Im (0::complex) = 0 \<and> is_integer (Re (0::complex)) \<and>
   aqueeq_binomial 0 0 0 (1 / 10 ^ 12) 100 (9 / 10) False = ([], Inr (0, None)) \<and>
   snd (aqueeq_binomial 0 0 0 (1 / 10 ^ 12) 100 (9 / 10) False) \<noteq> Inl DomainError"
proof -
  have i: "Im (0::complex) = 0" by simp
  have n: "is_integer (Re (0::complex))" by (simp add: is_integer_def)
  show ?thesis
    using zero_zero_integer_power [OF i n, of "1 / 10 ^ 12" 100 "9 / 10" False] i n
    by simp
qed

text \<open>
  C1, as the specification states it, fails: at \<open>x = 1\<close>, \<open>alpha = -1\<close> the exponent
  is real and not positive, and the call returns \<open>0\<close> instead of raising.
\<close>

theorem zero_sum_claim_counterexample:
  "\<not> (snd (aqueeq_binomial 1 (- 1) (- 1) (1 / 10 ^ 12) 100 (9 / 10) False) = Inl DomainError
      \<longleftrightarrow> (Im (- 1 :: complex) \<noteq> 0 \<or> Re (- 1 :: complex) \<le> 0))"
  by (simp add: aqueeq_binomial_def is_integer_def returned_def)

text \<open>
  C1, amended. For every \<open>x\<close> and \<open>alpha\<close>, \<open>aqueeq_binomial(x, -x, alpha)\<close> raises
  the domain error exactly when \<open>alpha\<close> has a non-zero imaginary part or is real, not
  an integer and not positive; it returns \<open>0\<close> exactly when \<open>alpha\<close> is real and
  either positive or an integer. It emits no warning.
\<close>

theorem zero_sum_outcome:
  "(snd (aqueeq_binomial x (- x) alpha tol max_terms boundary_threshold return_info)
      = Inl DomainError
    \<longleftrightarrow> (Im alpha \<noteq> 0 \<or> (Re alpha \<le> 0 \<and> \<not> is_integer (Re alpha))))
   \<and> ((\<exists>i. snd (aqueeq_binomial x (- x) alpha tol max_terms boundary_threshold return_info)
            = Inr (0, i))
    \<longleftrightarrow> (Im alpha = 0 \<and> (0 < Re alpha \<or> is_integer (Re alpha))))
   \<and> fst (aqueeq_binomial x (- x) alpha tol max_terms boundary_threshold return_info) = []"
proof -
  text \<open>With \<open>y = -x\<close> the two zero-operand tests fail, and three returns are left.\<close>
  have branches:
    "aqueeq_binomial x (- x) alpha tol max_terms boundary_threshold return_info =
       (if Im alpha = 0 \<and> is_integer (Re alpha)
        then ([], Inr (returned return_info 0 (plain_info False None)))
        else if 0 < Re alpha \<and> Im alpha = 0
        then ([], Inr (returned return_info 0 (plain_info True None)))
        else ([], Inl DomainError))"
    by (simp add: aqueeq_binomial_def)
  show ?thesis
    unfolding branches by (auto simp add: DomainError_def returned_def)
qed

theorem zero_sum_outcome_witness:
  "snd (aqueeq_binomial 1 (- 1) (- (1 / 2)) (1 / 10 ^ 12) 100 (9 / 10) False) = Inl DomainError
   \<and> snd (aqueeq_binomial 1 (- 1) (1 / 2) (1 / 10 ^ 12) 100 (9 / 10) False) = Inr (0, None)
   \<and> snd (aqueeq_binomial 1 (- 1) (- 2) (1 / 10 ^ 12) 100 (9 / 10) False) = Inr (0, None)"
proof -
  have a: "snd (aqueeq_binomial 1 (- 1) (- (1 / 2)) (1 / 10 ^ 12) 100 (9 / 10) False)
             = Inl DomainError"
    using zero_sum_outcome [of 1 "- (1 / 2)" "1 / 10 ^ 12" 100 "9 / 10" False]
    by (simp add: is_integer_def)
  have b: "\<exists>i. snd (aqueeq_binomial 1 (- 1) (1 / 2) (1 / 10 ^ 12) 100 (9 / 10) False)
             = Inr (0, i)"
    using zero_sum_outcome [of 1 "1 / 2" "1 / 10 ^ 12" 100 "9 / 10" False]
    by simp
  have c: "\<exists>i. snd (aqueeq_binomial 1 (- 1) (- 2) (1 / 10 ^ 12) 100 (9 / 10) False)
             = Inr (0, i)"
    using zero_sum_outcome [of 1 "- 2" "1 / 10 ^ 12" 100 "9 / 10" False]
    by (simp add: is_integer_def)
  show ?thesis
    using a b c by (auto simp add: aqueeq_binomial_def returned_def split: if_splits)
qed

subsection \<open>A zero second operand and the real odd root\<close>

lemma float_ratio_numeral:
  "float_ratio (numeral n) r d =
     (if is_integer r then (\<lfloor>r\<rfloor>, d) else float_ratio (pred_numeral n) (2 * r) (2 * d))"
  by (simp add: numeral_eq_Suc)

lemma finite_complex_of_real: "finite_complex (of_real r) = finite_float r"
  by (simp add: finite_complex_def finite_float_def float_max_bound_def)

lemma py_pow_positive_real:
  assumes "0 < a"
  shows "py_pow (of_real a) (of_real b) =
           (if finite_float (a powr b) then Inr (of_real (a powr b)) else Inl OverflowError)"
proof -
  have "of_real a \<noteq> (0::complex)" using assms by simp
  then show ?thesis
    using assms
    by (simp add: py_pow_principal exp_real_power range_checked_def finite_complex_of_real)
qed

lemma powr_le_base:
  assumes "1 \<le> a" and "b \<le> 1"
  shows "a powr b \<le> (a::real)"
  using powr_mono [OF assms(2) assms(1)] assms(1) by simp

text \<open>
  C4. For every input with \<open>y = 0\<close>, \<open>x\<close> real and negative and \<open>alpha\<close> real such
  that the rational approximation of \<open>alpha\<close> with denominator at most 1000, as
  \<open>Fraction(alpha.real).limit_denominator(1000)\<close> computes it, has an odd
  denominator, the call returns the real number \<open>- (|x| powr alpha)\<close> as a complex
  with imaginary part zero, and the diagnostics, when requested, report
  \<open>terms_used = 0\<close> (and the note \<open>real odd root\<close>). The value is returned whenever
  it is a double; otherwise \<open>abs(x.real) ** alpha.real\<close> itself raises.
\<close>

theorem real_odd_root_override:
  assumes "Im x = 0" and "Re x < 0" and "Im alpha = 0"
    and "limit_denominator (as_integer_ratio (Re alpha)) 1000 = Inr (p, q)"
    and "q mod 2 = 1"
  shows "aqueeq_binomial x 0 alpha tol max_terms boundary_threshold return_info =
          ([], if finite_float (\<bar>Re x\<bar> powr Re alpha)
               then Inr (of_real (- (\<bar>Re x\<bar> powr Re alpha)),
                         if return_info
                         then Some \<lparr>terms_used = 0, used_fallback = False, info_z = Some 0,
                                     info_note = Some ''real odd root'', last_term_abs = None,
                                     converged = None, info_base = None\<rparr>
                         else None)
               else Inl OverflowError)"
proof -
  have x: "x \<noteq> 0" using assms(2) by auto
  have a: "0 < \<bar>Re x\<bar>" using assms(2) by simp
  have r: "real_odd_root x alpha =
             (if finite_float (\<bar>Re x\<bar> powr Re alpha)
              then Inr (Some (- of_real (\<bar>Re x\<bar> powr Re alpha)))
              else Inl OverflowError)"
    unfolding real_odd_root_def assms(4) py_pow_positive_real [OF a]
    using assms(5) by simp
  show ?thesis
    unfolding aqueeq_binomial_def
    using assms(1-3) x by (simp add: r returned_def plain_info_def)
qed

text \<open>
  The witness is the specification's \<open>(-8)\<^sup>1\<^sup>/\<^sup>3\<close>: the exponent is the double
  nearest to \<open>1/3\<close>, whose approximation is \<open>1/3\<close>.
\<close>

theorem real_odd_root_override_witness:
  "Im (- 8 :: complex) = 0 \<and> Re (- 8 :: complex) < 0
   \<and> Im (6004799503160661 / 18014398509481984 :: complex) = 0
   \<and> limit_denominator
        (as_integer_ratio (Re (6004799503160661 / 18014398509481984 :: complex))) 1000
       = Inr (1, 3)
   \<and> (3::int) mod 2 = 1
   \<and> aqueeq_binomial (- 8) 0 (6004799503160661 / 18014398509481984) (1 / 10 ^ 12) 100 (9 / 10)
        True =
       ([], Inr (of_real (- (8 powr (6004799503160661 / 18014398509481984))),
                 Some \<lparr>terms_used = 0, used_fallback = False, info_z = Some 0,
                        info_note = Some ''real odd root'', last_term_abs = None,
                        converged = None, info_base = None\<rparr>))"
proof -
  have h1: "Im (- 8 :: complex) = 0" by simp
  have h2: "Re (- 8 :: complex) < 0" by simp
  have h3: "Im (6004799503160661 / 18014398509481984 :: complex) = 0" by simp
  have r: "Re (6004799503160661 / 18014398509481984 :: complex)
             = 6004799503160661 / 18014398509481984" by simp
  have h4: "limit_denominator
              (as_integer_ratio (Re (6004799503160661 / 18014398509481984 :: complex))) 1000
            = Inr (1, 3)"
    unfolding r
    by (simp add: as_integer_ratio_def float_ratio_numeral is_integer_def
        limit_denominator_def limit_loop.simps Let_def)
  have h5: "(3::int) mod 2 = 1" by simp
  have "(8::real) powr (6004799503160661 / 18014398509481984) \<le> 8"
    by (rule powr_le_base) simp_all
  then have f: "finite_float (8 powr (6004799503160661 / 18014398509481984))"
    by (simp add: finite_float_def float_max_bound_def)
  show ?thesis
    using real_odd_root_override [OF h1 h2 h3 h4 h5, of "1 / 10 ^ 12" 100 "9 / 10" True]
      h4 f
    by simp
qed

section \<open>Preconditioning and the fallbacks\<close>


lemma py_abs_Inr: "py_abs c = Inr r \<Longrightarrow> r = cmod c \<and> finite_float (cmod c)"
  by (simp add: py_abs_def split: if_splits)

lemma py_abs_Inl: "py_abs c = Inl e \<Longrightarrow> e = OverflowError"
  by (simp add: py_abs_def split: if_splits)


lemma log_exp_nonzero:
  "w \<noteq> 0 \<Longrightarrow> log_exp alpha w =
     (if finite_complex (exp (alpha * principal_log w)) then Inr (exp (alpha * principal_log w))
      else Inl OverflowError)"
  by (simp add: log_exp_def cmath_log_def cmath_exp_def range_checked_def)


lemma cmod_ratio_less_one:
  assumes "cmod a < cmod b"
  shows "cmod (a / b) < 1"
proof -
  have "0 < cmod b" using assms norm_ge_zero [of a] by linarith
  then show ?thesis using assms by (simp add: norm_divide)
qed


lemma preconditioning_less:
  "finite_float (cmod x) \<Longrightarrow> finite_float (cmod y) \<Longrightarrow> cmod x < cmod y \<Longrightarrow>
   preconditioning x y = Inr (Some (y, x / y))"
  by (auto simp add: preconditioning_def py_abs_def py_div_def)

lemma preconditioning_greater:
  "finite_float (cmod x) \<Longrightarrow> finite_float (cmod y) \<Longrightarrow> cmod y < cmod x \<Longrightarrow>
   preconditioning x y = Inr (Some (x, y / x))"
  by (auto simp add: preconditioning_def py_abs_def py_div_def)


lemma finite_float_numeral: "numeral n < (2::real) ^ 1024 \<Longrightarrow> finite_float (numeral n)"
  by (simp add: finite_float_def float_max_bound_def)

lemma finite_float_one: "finite_float 1"
  by (simp add: finite_float_def float_max_bound_def)

subsection \<open>Equal magnitudes\<close>



subsection \<open>The boundary fallback\<close>



section \<open>The series\<close>

subsection \<open>The loop\<close>

text \<open>
  One pass of the loop, with the library calls resolved: the division by \<open>k\<close>
  raises only at \<open>k = 0\<close>, and \<open>abs\<close> raises only outside the doubles.
\<close>

lemma series_loop_unfold:
  "series_loop alpha z tol effective_max k term S =
     (if k \<le> effective_max then
        if k = 0 then Inl ZeroDivisionError
        else
          let t = term * (alpha - of_int k + 1) * z / of_int k in
          if \<not> finite_float (cmod t) \<or> \<not> finite_float (cmod S) then Inl OverflowError
          else if cmod t < 1 / 10 ^ 16 * cmod S \<or> cmod t < 1 / 10 ^ 14 then Inr (k, t, S)
          else if \<not> finite_float (cmod (S + t)) then Inl OverflowError
          else if cmod t < tol * cmod (S + t) then Inr (k, t, S + t)
          else series_loop alpha z tol effective_max (k + 1) t (S + t)
      else Inr (k, term, S))"
  by (subst series_loop.simps) (simp add: py_div_def py_abs_def Let_def mult.assoc)

lemma series_loop_done:
  "effective_max < k \<Longrightarrow> series_loop alpha z tol effective_max k term S = Inr (k, term, S)"
  by (subst series_loop.simps) simp

lemma series_loop_result:
  assumes "series_loop alpha z tol effective_max k term S = Inr (k', t', S')"
  shows "k \<le> k' \<and> (k \<le> effective_max + 1 \<longrightarrow> k' \<le> effective_max + 1)
         \<and> (k \<le> effective_max \<longrightarrow> effective_max < k' \<longrightarrow>
              finite_float (cmod t') \<and> finite_float (cmod S') \<and> \<not> cmod t' < tol * cmod S')"
  using assms
proof (induction "nat (effective_max + 1 - k)" arbitrary: k "term" S rule: less_induct)
  case less
  show ?case
  proof (cases "k \<le> effective_max")
    case False
    then have "series_loop alpha z tol effective_max k term S = Inr (k, term, S)"
      by (simp add: series_loop_done)
    with less.prems False show ?thesis by simp
  next
    case True
    define t where "t = term * (alpha - of_int k + 1) * z / of_int k"
    note u = series_loop_unfold [of alpha z tol effective_max k "term" S, folded t_def]
    show ?thesis
    proof (cases "series_loop alpha z tol effective_max k term S
                    = series_loop alpha z tol effective_max (k + 1) t (S + t)
                  \<and> finite_float (cmod t) \<and> finite_float (cmod (S + t))
                  \<and> \<not> cmod t < tol * cmod (S + t)")
      case rec: True
      then have next_eq: "series_loop alpha z tol effective_max (k + 1) t (S + t) = Inr (k', t', S')"
        using less.prems by simp
      have m: "nat (effective_max + 1 - (k + 1)) < nat (effective_max + 1 - k)"
        using True by simp
      note ih = less.hyps [OF m next_eq]
      show ?thesis
      proof (cases "k + 1 \<le> effective_max")
        case True
        with ih \<open>k \<le> effective_max\<close> show ?thesis by simp
      next
        case False
        then have "series_loop alpha z tol effective_max (k + 1) t (S + t) = Inr (k + 1, t, S + t)"
          by (simp add: series_loop_done)
        with next_eq have "k' = k + 1" "t' = t" "S' = S + t" by auto
        with rec \<open>k \<le> effective_max\<close> show ?thesis by simp
      qed
    next
      case False
      with less.prems True u have "k' = k"
        by (auto simp add: Let_def split: if_splits)
      with True show ?thesis by simp
    qed
  qed
qed

lemma finite_float_small: "\<bar>r\<bar> \<le> 10 \<Longrightarrow> finite_float r"
proof -
  assume "\<bar>r\<bar> \<le> 10"
  moreover have "(10::real) < 2 ^ 1024" by simp
  ultimately show ?thesis
    unfolding finite_float_def float_max_bound_def by linarith
qed



subsection \<open>What the loop sums\<close>

text \<open>
  The terms are those of the generalised binomial series: when the loop is left,
  the term is \<open>(alpha gchoose m) * z\<^sup>m\<close> for some \<open>m\<close>, and \<open>S\<close> is the partial sum up
  to \<open>m\<close>, or up to \<open>m - 1\<close> when the loop stopped at the first test.
\<close>

lemma gbinomial_step:
  fixes a :: complex
  shows "a gchoose Suc n = (a gchoose n) * (a - of_nat n) / of_nat (Suc n)"
proof -
  have "of_nat (Suc n) * (a gchoose Suc n) = (a gchoose n) * (a - of_nat n)"
    using gbinomial_mult_1 [of a n] by (simp add: algebra_simps)
  then show ?thesis
    by (simp add: field_simps del: of_nat_Suc)
qed

lemma series_term_step:
  fixes alpha z :: complex
  shows "(alpha gchoose n) * z ^ n * (alpha - of_int (int n + 1) + 1) * z / of_int (int n + 1)
     = (alpha gchoose Suc n) * z ^ Suc n"
proof -
  have "of_int (int n + 1) = (of_nat (Suc n) :: complex)" by simp
  moreover have "alpha - of_int (int n + 1) + 1 = alpha - of_nat n" by simp
  ultimately show ?thesis
    by (simp only: gbinomial_step [of alpha n] power_Suc times_divide_eq_right
        times_divide_eq_left mult_ac)
qed

lemma series_loop_closed_form:
  assumes "series_loop alpha z tol effective_max (int n + 1)
             ((alpha gchoose n) * z ^ n) (\<Sum>j\<le>n. (alpha gchoose j) * z ^ j) = Inr (k', t', S')"
  shows "\<exists>m\<ge>n. t' = (alpha gchoose m) * z ^ m
           \<and> (S' = (\<Sum>j\<le>m. (alpha gchoose j) * z ^ j) \<and> (k' = int m \<or> k' = int m + 1)
              \<or> S' = (\<Sum>j<m. (alpha gchoose j) * z ^ j) \<and> k' = int m)"
  using assms
proof (induction "nat (effective_max - int n)" arbitrary: n rule: less_induct)
  case less
  let ?S = "\<Sum>j\<le>n. (alpha gchoose j) * z ^ j"
  let ?t = "(alpha gchoose Suc n) * z ^ Suc n"
  show ?case
  proof (cases "int n + 1 \<le> effective_max")
    case False
    then have "k' = int n + 1 \<and> t' = (alpha gchoose n) * z ^ n \<and> S' = ?S"
      using less.prems by (simp add: series_loop_done)
    then show ?thesis by blast
  next
    case True
    note u = series_loop_unfold [of alpha z tol effective_max "int n + 1"
        "(alpha gchoose n) * z ^ n" ?S, unfolded series_term_step]
    have St: "?S + ?t = (\<Sum>j\<le>Suc n. (alpha gchoose j) * z ^ j)" by simp
    have Sl: "?S = (\<Sum>j<Suc n. (alpha gchoose j) * z ^ j)"
      by (simp add: lessThan_Suc_atMost)
    show ?thesis
    proof (cases "series_loop alpha z tol effective_max (int n + 1)
                    ((alpha gchoose n) * z ^ n) ?S
                  = series_loop alpha z tol effective_max (int (Suc n) + 1) ?t (?S + ?t)")
      case rec: True
      have m: "nat (effective_max - int (Suc n)) < nat (effective_max - int n)"
        using True by simp
      have "series_loop alpha z tol effective_max (int (Suc n) + 1) ?t
              (\<Sum>j\<le>Suc n. (alpha gchoose j) * z ^ j) = Inr (k', t', S')"
        using less.prems rec St by simp
      from less.hyps [OF m this] obtain m where "m \<ge> Suc n"
        and "t' = (alpha gchoose m) * z ^ m
           \<and> (S' = (\<Sum>j\<le>m. (alpha gchoose j) * z ^ j) \<and> (k' = int m \<or> k' = int m + 1)
              \<or> S' = (\<Sum>j<m. (alpha gchoose j) * z ^ j) \<and> k' = int m)"
        by blast
      then show ?thesis by (intro exI [of _ m]) simp
    next
      case False
      with less.prems True u
      have "k' = int (Suc n) \<and> t' = ?t \<and> (S' = ?S \<or> S' = ?S + ?t)"
        by (auto simp add: Let_def add.commute split: if_splits)
      then show ?thesis
        unfolding St by (intro exI [of _ "Suc n"]) (auto simp add: Sl)
    qed
  qed
qed

lemma series_loop_sums_binomial_series:
  assumes "series_loop alpha z tol effective_max 1 1 1 = Inr (k, t, S)"
  shows "\<exists>m. t = (alpha gchoose m) * z ^ m
           \<and> (S = (\<Sum>j\<le>m. (alpha gchoose j) * z ^ j) \<and> (k = int m \<or> k = int m + 1)
              \<or> S = (\<Sum>j<m. (alpha gchoose j) * z ^ j) \<and> k = int m)"
  using series_loop_closed_form [of alpha z tol effective_max 0 k t S] assms by auto

subsection \<open>The number of terms reported\<close>

lemma effective_max_terms_ge:
  "max_terms \<le> effective_max_terms max_terms az boundary_threshold"
  by (simp add: effective_max_terms_def)

lemma effective_max_terms_value:
  "0 \<le> max_terms \<Longrightarrow>
   effective_max_terms max_terms az boundary_threshold =
     (if 0.75 < az \<and> az \<le> boundary_threshold then 3 * max_terms else max_terms)"
  by (simp add: effective_max_terms_def)

lemma series_terms_used_bound:
  assumes "series_summation A z alpha tol max_terms boundary_threshold True = (ws, Inr (v, Some i))"
    and "0 \<le> effective_max_terms max_terms (cmod z) boundary_threshold"
  shows "1 \<le> terms_used i
         \<and> terms_used i \<le> effective_max_terms max_terms (cmod z) boundary_threshold + 1"
proof -
  from assms(1) obtain k "term" S where
    l: "series_loop alpha z tol (effective_max_terms max_terms (cmod z) boundary_threshold) 1 1 1
          = Inr (k, term, S)"
    and r: "series_result A z alpha tol True k term S = Inr (v, Some i)"
    by (auto simp add: series_summation_def Let_def dest!: py_abs_Inr
        split: sum.splits prod.splits)
  from r have "terms_used i = k"
    by (auto simp add: series_result_def split: sum.splits)
  with series_loop_result [OF l] assms(2) show ?thesis by simp
qed

lemma half_series_loop:
  "series_loop (1 / 2) (1 / 2) (1 / 10 ^ 12) 1 1 1 1 = Inr (2, 1 / 4, 5 / 4)"
proof -
  have "series_loop (1 / 2) (1 / 2) (1 / 10 ^ 12) 1 1 1 1
          = series_loop (1 / 2) (1 / 2) (1 / 10 ^ 12) 1 2 (1 / 4) (5 / 4)"
    by (subst series_loop_unfold) (simp add: finite_float_small norm_divide)
  then show ?thesis by (simp add: series_loop_done)
qed

lemma sqrt_two_power: "exp (principal_log 2 / 2) = of_real (sqrt 2)"
  using exp_real_power [of 2 "1 / 2"] by (simp add: powr_half_sqrt)

lemma sqrt_two_finite: "finite_float (sqrt 2)"
proof -
  have "sqrt 2 < 2" by (rule real_less_lsqrt) simp_all
  then show ?thesis by (simp add: finite_float_small)
qed

text \<open>
  C2. The diagnostics are claimed to report \<open>terms_used \<le> effective_max_terms\<close>. The
  budget is as claimed (\<open>effective_max_terms_value\<close>), but \<open>terms_used\<close> is the loop
  counter, and a loop that runs out of its budget leaves it one above the budget
  (\<open>series_terms_used_bound\<close> is the bound that holds). At \<open>x = 1\<close>, \<open>y = 2\<close>,
  \<open>alpha = 1/2\<close>, \<open>max_terms = 1\<close> the budget is one term, one term is added, the
  warning says that there was no convergence after 1 term, and the diagnostics report
  \<open>terms_used = 2\<close>.
\<close>

theorem terms_used_exceeds_budget:
  "aqueeq_binomial 1 2 (1 / 2) (1 / 10 ^ 12) 1 (9 / 10) True =
     ([NoConvergenceWarning 1 (1 / 2) (1 / 4)],
      Inr (of_real (sqrt 2) * (5 / 4),
           Some \<lparr>terms_used = 2, used_fallback = False, info_z = Some (1 / 2),
                  info_note = None, last_term_abs = Some (1 / 4), converged = Some False,
                  info_base = Some 2\<rparr>))
   \<and> effective_max_terms 1 (cmod (1 / 2)) (9 / 10) = 1"
proof -
  have p: "preconditioning 1 2 = Inr (Some (2, 1 / 2))"
    using preconditioning_less [of 1 2] by (simp add: finite_float_small)
  have az: "py_abs (1 / 2) = Inr (1 / 2)"
    by (simp add: py_abs_def finite_float_small norm_divide)
  have em: "effective_max_terms 1 (1 / 2) (9 / 10) = 1"
    by (simp add: effective_max_terms_def)
  have nc: "no_convergence_check 2 1 (1 / 4) (5 / 4) (1 / 10 ^ 12) (1 / 2)
              = Inr [NoConvergenceWarning 1 (1 / 2) (1 / 4)]"
    by (simp add: no_convergence_check_def py_abs_def finite_float_small norm_divide)
  have sr: "series_result 2 (1 / 2) (1 / 2) (1 / 10 ^ 12) True 2 (1 / 4) (5 / 4)
              = Inr (of_real (sqrt 2) * (5 / 4),
                     Some \<lparr>terms_used = 2, used_fallback = False, info_z = Some (1 / 2),
                            info_note = None, last_term_abs = Some (1 / 4),
                            converged = Some False, info_base = Some 2\<rparr>)"
    by (simp add: series_result_def log_exp_nonzero sqrt_two_power finite_complex_of_real
        sqrt_two_finite py_abs_def finite_float_small norm_divide)
  have ss: "series_summation 2 (1 / 2) (1 / 2) (1 / 10 ^ 12) 1 (9 / 10) True =
     ([NoConvergenceWarning 1 (1 / 2) (1 / 4)],
      Inr (of_real (sqrt 2) * (5 / 4),
           Some \<lparr>terms_used = 2, used_fallback = False, info_z = Some (1 / 2),
                  info_note = None, last_term_abs = Some (1 / 4), converged = Some False,
                  info_base = Some 2\<rparr>))"
    using half_series_loop nc sr by (simp add: series_summation_def az em)
  show ?thesis
    using ss by (simp add: aqueeq_binomial_def p az em norm_divide)
qed

section \<open>The function over an arbitrary arithmetic: its exceptions and its warnings\<close>

subsection \<open>The loop\<close>

lemma library_raisesI:
  "c_pow L a b = Inl e \<Longrightarrow> library_raises L e"
  "r_pow L r s = Inl e \<Longrightarrow> library_raises L e"
  "r_limit_denominator L r = Inl e \<Longrightarrow> library_raises L e"
  "c_abs L a = Inl e \<Longrightarrow> library_raises L e"
  "c_div L a b = Inl e \<Longrightarrow> library_raises L e"
  "c_div_int L a k = Inl e \<Longrightarrow> library_raises L e"
  "c_log L a = Inl e \<Longrightarrow> library_raises L e"
  "c_exp L a = Inl e \<Longrightarrow> library_raises L e"
  unfolding library_raises_def by blast+

lemma series_loop_with_done:
  "effective_max < k \<Longrightarrow> series_loop_with L alpha z tol effective_max k term S = Inr (k, term, S)"
  by (subst series_loop_with.simps) simp

text \<open>One pass: what is computed, and the four ways to leave it.\<close>

lemma series_loop_with_pass:
  assumes "k \<le> effective_max"
    and "series_loop_with L alpha z tol effective_max k term S = r"
  obtains (raised) e where "r = Inl e" and "library_raises L e"
  | (floor) m t_abs S_abs where
      "c_div_int L (c_mul L (c_add_int L (c_sub_int L alpha k) 1) z) k = Inr m"
      "c_abs L (c_mul L term m) = Inr t_abs" "c_abs L S = Inr S_abs"
      "r_lt L t_abs (r_mul L (r_floor_relative L) S_abs) \<or> r_lt L t_abs (r_floor_absolute L)"
      "r = Inr (k, c_mul L term m, S)"
  | (tolerance) m t_abs S_abs S_abs' where
      "c_div_int L (c_mul L (c_add_int L (c_sub_int L alpha k) 1) z) k = Inr m"
      "c_abs L (c_mul L term m) = Inr t_abs" "c_abs L S = Inr S_abs"
      "\<not> (r_lt L t_abs (r_mul L (r_floor_relative L) S_abs) \<or> r_lt L t_abs (r_floor_absolute L))"
      "c_abs L (c_add L S (c_mul L term m)) = Inr S_abs'"
      "r_lt L t_abs (r_mul L tol S_abs')"
      "r = Inr (k, c_mul L term m, c_add L S (c_mul L term m))"
  | (continue) m t_abs S_abs S_abs' where
      "c_div_int L (c_mul L (c_add_int L (c_sub_int L alpha k) 1) z) k = Inr m"
      "c_abs L (c_mul L term m) = Inr t_abs" "c_abs L S = Inr S_abs"
      "\<not> (r_lt L t_abs (r_mul L (r_floor_relative L) S_abs) \<or> r_lt L t_abs (r_floor_absolute L))"
      "c_abs L (c_add L S (c_mul L term m)) = Inr S_abs'"
      "\<not> r_lt L t_abs (r_mul L tol S_abs')"
      "r = series_loop_with L alpha z tol effective_max (k + 1) (c_mul L term m)
             (c_add L S (c_mul L term m))"
proof -
  note u = series_loop_with.simps [of L alpha z tol effective_max k "term" S]
  show thesis
  proof (cases "c_div_int L (c_mul L (c_add_int L (c_sub_int L alpha k) 1) z) k")
    case (Inl e)
    then have "r = Inl e" using assms u by simp
    then show ?thesis using raised Inl by (blast intro: library_raisesI)
  next
    case m: (Inr m)
    show ?thesis
    proof (cases "c_abs L (c_mul L term m)")
      case (Inl e)
      then have "r = Inl e" using assms u m by simp
      then show ?thesis using raised Inl by (blast intro: library_raisesI)
    next
      case t: (Inr t_abs)
      show ?thesis
      proof (cases "c_abs L S")
        case (Inl e)
        then have "r = Inl e" using assms u m t by simp
        then show ?thesis using raised Inl by (blast intro: library_raisesI)
      next
        case s: (Inr S_abs)
        show ?thesis
        proof (cases "r_lt L t_abs (r_mul L (r_floor_relative L) S_abs)
                      \<or> r_lt L t_abs (r_floor_absolute L)")
          case True
          then have "r = Inr (k, c_mul L term m, S)" using assms u m t s by auto
          then show ?thesis using floor m t s True by blast
        next
          case nf: False
          show ?thesis
          proof (cases "c_abs L (c_add L S (c_mul L term m))")
            case (Inl e)
            then have "r = Inl e" using assms u m t s nf by simp
            then show ?thesis using raised Inl by (blast intro: library_raisesI)
          next
            case s': (Inr S_abs')
            show ?thesis
            proof (cases "r_lt L t_abs (r_mul L tol S_abs')")
              case True
              then have "r = Inr (k, c_mul L term m, c_add L S (c_mul L term m))"
                using assms u m t s nf s' by simp
              then show ?thesis using tolerance m t s nf s' True by blast
            next
              case False
              then have "r = series_loop_with L alpha z tol effective_max (k + 1)
                               (c_mul L term m) (c_add L S (c_mul L term m))"
                using assms u m t s nf s' by simp
              then show ?thesis using continue m t s nf s' False by blast
            qed
          qed
        qed
      qed
    qed
  qed
qed

lemma series_loop_with_error:
  assumes "series_loop_with L alpha z tol effective_max k term S = Inl e"
  shows "library_raises L e"
  using assms
proof (induction "nat (effective_max + 1 - k)" arbitrary: k "term" S rule: less_induct)
  case less
  show ?case
  proof (cases "k \<le> effective_max")
    case False
    then show ?thesis using less.prems by (simp add: series_loop_with_done)
  next
    case True
    have m: "nat (effective_max + 1 - (k + 1)) < nat (effective_max + 1 - k)"
      using True by simp
    from True less.prems show ?thesis
    proof (cases rule: series_loop_with_pass)
      case (raised e')
      then show ?thesis by simp
    next
      case (continue m' t_abs S_abs S_abs')
      then show ?thesis using less.hyps [OF m] by metis
    qed simp_all
  qed
qed

lemma series_loop_with_result:
  assumes "series_loop_with L alpha z tol effective_max k term S = Inr (k', t', S')"
  shows "k \<le> k' \<and> (k \<le> effective_max + 1 \<longrightarrow> k' \<le> effective_max + 1)
         \<and> (k \<le> effective_max \<longrightarrow> effective_max < k' \<longrightarrow>
              (\<exists>t_abs S_abs. c_abs L t' = Inr t_abs \<and> c_abs L S' = Inr S_abs
                 \<and> \<not> r_lt L t_abs (r_mul L tol S_abs)))"
  using assms
proof (induction "nat (effective_max + 1 - k)" arbitrary: k "term" S rule: less_induct)
  case less
  show ?case
  proof (cases "k \<le> effective_max")
    case False
    then show ?thesis using less.prems by (simp add: series_loop_with_done)
  next
    case True
    have m: "nat (effective_max + 1 - (k + 1)) < nat (effective_max + 1 - k)"
      using True by simp
    from True less.prems show ?thesis
    proof (cases rule: series_loop_with_pass)
      case (raised e')
      then show ?thesis by simp
    next
      case (floor m' t_abs S_abs)
      then show ?thesis using True by simp
    next
      case (tolerance m' t_abs S_abs S_abs')
      then show ?thesis using True by simp
    next
      case (continue m' t_abs S_abs S_abs')
      let ?t = "c_mul L term m'" and ?S = "c_add L S (c_mul L term m')"
      have next_eq: "series_loop_with L alpha z tol effective_max (k + 1) ?t ?S = Inr (k', t', S')"
        using continue(7) by simp
      note ih = less.hyps [OF m next_eq]
      show ?thesis
      proof (cases "k + 1 \<le> effective_max")
        case True
        with ih \<open>k \<le> effective_max\<close> show ?thesis by simp
      next
        case False
        then have "series_loop_with L alpha z tol effective_max (k + 1) ?t ?S
                     = Inr (k + 1, ?t, ?S)"
          by (simp add: series_loop_with_done)
        with next_eq have "k' = k + 1" "t' = ?t" "S' = ?S" by auto
        with continue \<open>k \<le> effective_max\<close> show ?thesis by auto
      qed
    qed
  qed
qed

subsection \<open>Where an exception comes from\<close>

lemma real_odd_root_with_error:
  "real_odd_root_with L x alpha = Inl e \<Longrightarrow> library_raises L e"
  by (auto simp add: real_odd_root_with_def intro: library_raisesI
      split: sum.splits if_splits)

lemma preconditioning_with_error:
  "preconditioning_with (c_abs L) (r_lt L) (c_div L) x y = Inl e \<Longrightarrow> library_raises L e"
  by (auto simp add: preconditioning_with_def intro: library_raisesI
      split: sum.splits if_splits)

lemma log_exp_with_error: "log_exp_with L alpha w = Inl e \<Longrightarrow> library_raises L e"
  by (auto simp add: log_exp_with_def intro: library_raisesI split: sum.splits)

lemma no_convergence_check_with_error:
  "no_convergence_check_with L k effective_max term S tol z = Inl e \<Longrightarrow> library_raises L e"
  by (auto simp add: no_convergence_check_with_def intro: library_raisesI
      split: sum.splits if_splits)

lemma series_result_with_error:
  "series_result_with L A z alpha tol return_info k term S = Inl e \<Longrightarrow> library_raises L e"
  by (auto simp add: series_result_with_def intro: library_raisesI
      dest: log_exp_with_error split: sum.splits if_splits)

lemma series_summation_with_error:
  assumes "snd (series_summation_with L A z alpha tol max_terms boundary_threshold return_info)
             = Inl e"
  shows "library_raises L e"
  using assms
  by (auto simp add: series_summation_with_def Let_def
      intro: library_raisesI
      dest: series_loop_with_error no_convergence_check_with_error series_result_with_error
      split: sum.splits prod.splits)

lemma aqueeq_binomial_with_error:
  assumes "snd (aqueeq_binomial_with L x y alpha tol max_terms boundary_threshold return_info)
             = Inl e"
  shows "library_raises L e
         \<or> (e = DomainError
            \<and> fst (aqueeq_binomial_with L x y alpha tol max_terms boundary_threshold return_info)
                = []
            \<and> c_is_zero L (c_add L x y)
            \<and> \<not> (r_lt L (r_zero L) (c_real L alpha) \<and> r_is_zero L (c_imag L alpha)))"
proof -
  let ?P = "preconditioning_with (c_abs L) (r_lt L) (c_div L) x y"
  consider (a) "c_is_zero L x \<and> \<not> c_is_zero L y"
    | (b) "\<not> (c_is_zero L x \<and> \<not> c_is_zero L y)" "c_is_zero L y \<and> \<not> c_is_zero L x"
    | (c) "\<not> (c_is_zero L x \<and> \<not> c_is_zero L y)" "\<not> (c_is_zero L y \<and> \<not> c_is_zero L x)"
          "c_eq L x (c_neg L y) \<and> r_is_zero L (c_imag L alpha) \<and> r_is_integer L (c_real L alpha)"
    | (d) "\<not> (c_is_zero L x \<and> \<not> c_is_zero L y)" "\<not> (c_is_zero L y \<and> \<not> c_is_zero L x)"
          "\<not> (c_eq L x (c_neg L y) \<and> r_is_zero L (c_imag L alpha)
              \<and> r_is_integer L (c_real L alpha))"
          "c_is_zero L (c_add L x y)"
    | (e) "\<not> (c_is_zero L x \<and> \<not> c_is_zero L y)" "\<not> (c_is_zero L y \<and> \<not> c_is_zero L x)"
          "\<not> (c_eq L x (c_neg L y) \<and> r_is_zero L (c_imag L alpha)
              \<and> r_is_integer L (c_real L alpha))"
          "\<not> c_is_zero L (c_add L x y)"
    by blast
  then show ?thesis
  proof cases
    case a
    with assms show ?thesis
      by (auto simp add: aqueeq_binomial_with_def intro: library_raisesI split: sum.splits)
  next
    case b
    with assms show ?thesis
      by (auto simp add: aqueeq_binomial_with_def intro: library_raisesI
          dest: real_odd_root_with_error split: sum.splits option.splits if_splits)
  next
    case c
    with assms show ?thesis by (simp add: aqueeq_binomial_with_def)
  next
    case d
    with assms show ?thesis
      by (auto simp add: aqueeq_binomial_with_def split: if_splits)
  next
    case e
    show ?thesis
    proof (cases ?P)
      case (Inl e')
      with assms e show ?thesis
        by (auto simp add: aqueeq_binomial_with_def dest: preconditioning_with_error)
    next
      case (Inr r)
      show ?thesis
      proof (cases r)
        case None
        with assms e Inr show ?thesis
          by (auto simp add: aqueeq_binomial_with_def dest: log_exp_with_error
              split: sum.splits)
      next
        case (Some Az)
        obtain A z where Az: "Az = (A, z)" by (cases Az)
        have p: "?P = Inr (Some (A, z))" using Inr Some Az by simp
        show ?thesis
        proof (cases "c_abs L z")
          case (Inl e')
          with assms e p show ?thesis
            by (auto simp add: aqueeq_binomial_with_def intro: library_raisesI)
        next
          case az: (Inr az)
          show ?thesis
          proof (cases "r_lt L boundary_threshold az")
            case True
            with assms e p az show ?thesis
              by (auto simp add: aqueeq_binomial_with_def dest: log_exp_with_error
                  split: sum.splits)
          next
            case False
            with assms e p az
            have "snd (series_summation_with L A z alpha tol max_terms boundary_threshold
                         return_info) = Inl e"
              by (simp add: aqueeq_binomial_with_def)
            then show ?thesis by (rule disjI1 [OF series_summation_with_error])
          qed
        qed
      qed
    qed
  qed
qed

subsection \<open>A loop that runs out of its budget\<close>

lemma effective_max_terms_with_ge:
  "max_terms \<le> effective_max_terms_with L max_terms az boundary_threshold"
  by (simp add: effective_max_terms_with_def)

lemma series_exhausted_outcome_with:
  assumes e1: "\<not> (c_is_zero L x \<and> \<not> c_is_zero L y)"
    and e2: "\<not> (c_is_zero L y \<and> \<not> c_is_zero L x)"
    and e3: "\<not> (c_eq L x (c_neg L y) \<and> r_is_zero L (c_imag L alpha)
                \<and> r_is_integer L (c_real L alpha))"
    and e4: "\<not> c_is_zero L (c_add L x y)"
    and p: "preconditioning_with (c_abs L) (r_lt L) (c_div L) x y = Inr (Some (A, z))"
    and az: "c_abs L z = Inr az"
    and b: "\<not> r_lt L boundary_threshold az"
    and m: "1 \<le> max_terms"
    and l: "series_loop_with L alpha z tol
              (effective_max_terms_with L max_terms az boundary_threshold) 1 (c_one L) (c_one L)
            = Inr (k, term, S)"
    and k: "effective_max_terms_with L max_terms az boundary_threshold < k"
  shows "\<exists>t_abs S_abs.
           c_abs L term = Inr t_abs \<and> c_abs L S = Inr S_abs
           \<and> \<not> r_lt L t_abs (r_mul L tol S_abs)
           \<and> aqueeq_binomial_with L x y alpha tol max_terms boundary_threshold return_info =
               (if r_le L (r_mul L tol S_abs) t_abs
                then [NoConvergence (effective_max_terms_with L max_terms az boundary_threshold)
                        az t_abs]
                else [],
                series_result_with L A z alpha tol return_info k term S)"
proof -
  let ?m = "effective_max_terms_with L max_terms az boundary_threshold"
  have "1 \<le> ?m" using m effective_max_terms_with_ge [of max_terms L az boundary_threshold]
    by linarith
  with series_loop_with_result [OF l] k
  obtain t_abs S_abs where t: "c_abs L term = Inr t_abs" and s: "c_abs L S = Inr S_abs"
    and nc: "\<not> r_lt L t_abs (r_mul L tol S_abs)"
    by auto
  have w: "no_convergence_check_with L k ?m term S tol z =
             Inr (if r_le L (r_mul L tol S_abs) t_abs then [NoConvergence ?m az t_abs] else [])"
    using k by (simp add: no_convergence_check_with_def t s az)
  have "aqueeq_binomial_with L x y alpha tol max_terms boundary_threshold return_info =
          series_summation_with L A z alpha tol max_terms boundary_threshold return_info"
    by (simp only: aqueeq_binomial_with_def if_not_P [OF e1] if_not_P [OF e2] if_not_P [OF e3]
        if_not_P [OF e4] if_not_P [OF b] p az sum.case option.case prod.case)
  also have "\<dots> = (if r_le L (r_mul L tol S_abs) t_abs then [NoConvergence ?m az t_abs] else [],
                     series_result_with L A z alpha tol return_info k term S)"
    by (simp add: series_summation_with_def az l w)
  finally show ?thesis using t s nc by blast
qed

subsection \<open>Exact arithmetic\<close>

text \<open>
  With the exact numbers for its arithmetic, the function over an arbitrary arithmetic
  is the function of the first model.
\<close>

lemma exact_arith_sel [simp]:
  "c_zero exact_arith = 0" "c_one exact_arith = 1" "c_is_zero exact_arith c = (c = 0)"
  "c_eq exact_arith a b = (a = b)" "c_neg exact_arith a = - a"
  "c_add exact_arith a b = a + b" "c_mul exact_arith a b = a * b"
  "c_sub_int exact_arith a k = a - of_int k" "c_add_int exact_arith a k = a + of_int k"
  "c_div exact_arith = py_div" "c_div_int exact_arith a k = py_div a (of_int k)"
  "c_abs exact_arith = py_abs" "c_pow exact_arith = py_pow"
  "c_log exact_arith = cmath_log" "c_exp exact_arith = cmath_exp"
  "c_real exact_arith a = Re a" "c_imag exact_arith a = Im a"
  "c_of_float exact_arith r = of_real r"
  "r_zero exact_arith = 0" "r_threshold_band exact_arith = 0.75"
  "r_floor_relative exact_arith = 1 / 10 ^ 16" "r_floor_absolute exact_arith = 1 / 10 ^ 14"
  "r_is_zero exact_arith r = (r = 0)" "r_lt exact_arith = (<)" "r_le exact_arith = (\<le>)"
  "r_mul exact_arith r s = r * s" "r_neg exact_arith r = - r" "r_abs exact_arith r = \<bar>r\<bar>"
  "r_pow exact_arith r s =
     (case py_pow (of_real r) (of_real s) of Inl e \<Rightarrow> Inl e | Inr c \<Rightarrow> Inr (Re c))"
  "r_is_integer exact_arith = is_integer"
  "r_limit_denominator exact_arith r = limit_denominator (as_integer_ratio r) 1000"
  by (simp_all add: exact_arith_def)

lemma exact_log_exp: "log_exp_with exact_arith alpha w = log_exp alpha w"
  by (simp add: log_exp_with_def log_exp_def split: sum.splits)

lemma exact_preconditioning: "preconditioning_with py_abs (<) py_div x y = preconditioning x y"
  by (simp add: preconditioning_with_def preconditioning_def)

lemma exact_real_odd_root:
  assumes "Re x < 0"
  shows "real_odd_root_with exact_arith x alpha = real_odd_root x alpha"
proof -
  have pos: "0 < \<bar>Re x\<bar>" using assms by simp
  have "\<And>c. py_pow (of_real \<bar>Re x\<bar>) (of_real (Re alpha)) = Inr c \<Longrightarrow> of_real (Re c) = c"
    unfolding py_pow_positive_real [OF pos] by (auto split: if_splits)
  then show ?thesis
    by (auto simp add: real_odd_root_with_def real_odd_root_def split: sum.splits)
qed

lemma exact_effective_max_terms:
  "effective_max_terms_with exact_arith max_terms az boundary_threshold
     = effective_max_terms max_terms az boundary_threshold"
  by (simp add: effective_max_terms_with_def effective_max_terms_def)

lemma exact_series_loop:
  "series_loop_with exact_arith alpha z tol effective_max k term S
     = series_loop alpha z tol effective_max k term S"
proof (induction "nat (effective_max + 1 - k)" arbitrary: k "term" S rule: less_induct)
  case less
  show ?case
  proof (cases "k \<le> effective_max")
    case False
    then show ?thesis by (simp add: series_loop_with_done series_loop_done)
  next
    case True
    have m: "nat (effective_max + 1 - (k + 1)) < nat (effective_max + 1 - k)"
      using True by simp
    show ?thesis
      by (subst series_loop_with.simps, subst series_loop.simps)
        (simp add: less.hyps [OF m] split: sum.splits)
  qed
qed

lemma exact_no_convergence_check:
  "map_sum id (map warning_of) (no_convergence_check_with exact_arith k effective_max term S tol z)
     = no_convergence_check k effective_max term S tol z"
  by (simp add: no_convergence_check_with_def no_convergence_check_def split: sum.splits)

lemma exact_series_result:
  "(case series_result_with exact_arith A z alpha tol return_info k term S of
      Inl e \<Rightarrow> Inl e | Inr (v, d) \<Rightarrow> Inr (v, map_option info_of d))
     = series_result A z alpha tol return_info k term S"
  by (simp add: series_result_with_def series_result_def exact_log_exp info_of_def
      split: sum.splits)

lemma exact_series_summation:
  "outcome_of (series_summation_with exact_arith A z alpha tol max_terms boundary_threshold
                 return_info)
     = series_summation A z alpha tol max_terms boundary_threshold return_info"
proof (cases "py_abs z")
  case (Inl e)
  then show ?thesis
    by (simp add: outcome_of_def series_summation_with_def series_summation_def)
next
  case az: (Inr az)
  let ?m = "effective_max_terms max_terms az boundary_threshold"
  show ?thesis
  proof (cases "series_loop alpha z tol ?m 1 1 1")
    case (Inl e)
    then show ?thesis
      by (simp add: outcome_of_def series_summation_with_def series_summation_def az
          exact_effective_max_terms exact_series_loop)
  next
    case (Inr r)
    obtain k t S where r: "r = (k, t, S)" by (cases r)
    show ?thesis
    proof (cases "no_convergence_check_with exact_arith k ?m t S tol z")
      case (Inl e)
      then have "no_convergence_check k ?m t S tol z = Inl e"
        using exact_no_convergence_check [of k ?m t S tol z] by simp
      with Inl Inr r show ?thesis
        by (simp add: outcome_of_def series_summation_with_def series_summation_def az
            exact_effective_max_terms exact_series_loop)
    next
      case ws: (Inr ws)
      then have "no_convergence_check k ?m t S tol z = Inr (map warning_of ws)"
        using exact_no_convergence_check [of k ?m t S tol z] by simp
      with ws Inr r show ?thesis
        by (simp add: outcome_of_def series_summation_with_def series_summation_def az
            exact_effective_max_terms exact_series_loop exact_series_result)
    qed
  qed
qed

lemma outcome_of_simps:
  "outcome_of (ws, Inl e) = (map warning_of ws, Inl e)"
  "outcome_of (ws, Inr (v, d)) = (map warning_of ws, Inr (v, map_option info_of d))"
  by (simp_all add: outcome_of_def)

lemma outcome_of_returned:
  "outcome_of (ws, Inr (returned_with return_info v d))
     = (map warning_of ws, Inr (returned return_info v (info_of d)))"
  by (simp add: outcome_of_def returned_with_def returned_def)

lemma info_of_plain: "info_of (plain_diagnostics fb zo) = plain_info fb zo"
  by (simp add: info_of_def plain_diagnostics_def plain_info_def)

lemma info_of_note:
  "info_of (d\<lparr>diag_note := n\<rparr>) = (info_of d)\<lparr>info_note := n\<rparr>"
  by (simp add: info_of_def)

lemma exact_aqueeq_binomial:
  "outcome_of (aqueeq_binomial_with exact_arith x y alpha tol max_terms boundary_threshold
                 return_info)
     = aqueeq_binomial x y alpha tol max_terms boundary_threshold return_info"
proof -
  consider (a) "x = 0 \<and> y \<noteq> 0" | (b) "y = 0 \<and> x \<noteq> 0"
    | (c) "\<not> (x = 0 \<and> y \<noteq> 0)" "\<not> (y = 0 \<and> x \<noteq> 0)"
          "x = - y \<and> Im alpha = 0 \<and> is_integer (Re alpha)"
    | (d) "\<not> (x = 0 \<and> y \<noteq> 0)" "\<not> (y = 0 \<and> x \<noteq> 0)"
          "\<not> (x = - y \<and> Im alpha = 0 \<and> is_integer (Re alpha))" "x + y = 0"
    | (e) "\<not> (x = 0 \<and> y \<noteq> 0)" "\<not> (y = 0 \<and> x \<noteq> 0)"
          "\<not> (x = - y \<and> Im alpha = 0 \<and> is_integer (Re alpha))" "x + y \<noteq> 0"
    by blast
  then show ?thesis
  proof cases
    case a
    then show ?thesis
      by (simp add: aqueeq_binomial_with_def aqueeq_binomial_def outcome_of_simps
          outcome_of_returned info_of_plain split: sum.splits)
  next
    case b
    show ?thesis
    proof (cases "Im x = 0 \<and> Im alpha = 0 \<and> Re x < 0")
      case True
      then show ?thesis
        using b
        by (simp add: aqueeq_binomial_with_def aqueeq_binomial_def outcome_of_simps
            outcome_of_returned info_of_plain info_of_note exact_real_odd_root
            split: sum.splits option.splits)
    next
      case False
      then show ?thesis
        using b
        by (auto simp add: aqueeq_binomial_with_def aqueeq_binomial_def outcome_of_simps
            outcome_of_returned info_of_plain split: sum.splits)
    qed
  next
    case c
    have "outcome_of (aqueeq_binomial_with exact_arith x y alpha tol max_terms
                        boundary_threshold return_info)
            = ([], Inr (returned return_info 0 (plain_info False None)))"
      by (simp only: aqueeq_binomial_with_def exact_arith_sel if_not_P [OF c(1)]
          if_not_P [OF c(2)] if_P [OF c(3)] outcome_of_returned info_of_plain list.map)
    moreover have "aqueeq_binomial x y alpha tol max_terms boundary_threshold return_info
            = ([], Inr (returned return_info 0 (plain_info False None)))"
      by (simp only: aqueeq_binomial_def if_not_P [OF c(1)] if_not_P [OF c(2)] if_P [OF c(3)])
    ultimately show ?thesis by simp
  next
    case d
    have "outcome_of (aqueeq_binomial_with exact_arith x y alpha tol max_terms
                        boundary_threshold return_info)
            = (if 0 < Re alpha \<and> Im alpha = 0
               then ([], Inr (returned return_info 0 (plain_info True None)))
               else ([], Inl DomainError))"
      by (simp only: aqueeq_binomial_with_def exact_arith_sel if_not_P [OF d(1)]
          if_not_P [OF d(2)] if_not_P [OF d(3)] if_P [OF d(4)])
        (simp add: outcome_of_simps outcome_of_returned info_of_plain)
    moreover have "aqueeq_binomial x y alpha tol max_terms boundary_threshold return_info
            = (if 0 < Re alpha \<and> Im alpha = 0
               then ([], Inr (returned return_info 0 (plain_info True None)))
               else ([], Inl DomainError))"
      by (simp only: aqueeq_binomial_def if_not_P [OF d(1)] if_not_P [OF d(2)]
          if_not_P [OF d(3)] if_P [OF d(4)])
    ultimately show ?thesis by simp
  next
    case e
    note reduce = aqueeq_binomial_with_def aqueeq_binomial_def exact_arith_sel
      if_not_P [OF e(1)] if_not_P [OF e(2)] if_not_P [OF e(3)] if_not_P [OF e(4)]
      exact_preconditioning
    show ?thesis
    proof (cases "preconditioning x y")
      case (Inl e')
      then show ?thesis
        unfolding reduce by (simp add: outcome_of_simps)
    next
      case (Inr r)
      show ?thesis
      proof (cases r)
        case None
        with Inr show ?thesis
          unfolding reduce
          by (simp add: exact_log_exp outcome_of_simps outcome_of_returned info_of_plain
              split: sum.splits)
      next
        case (Some Az)
        obtain A z where Az: "Az = (A, z)" by (cases Az)
        have p: "preconditioning x y = Inr (Some (A, z))" using Inr Some Az by simp
        show ?thesis
        proof (cases "py_abs z")
          case (Inl e')
          with p show ?thesis
            unfolding reduce by (simp add: outcome_of_simps)
        next
          case az: (Inr az)
          show ?thesis
          proof (cases "boundary_threshold < az")
            case True
            with p az show ?thesis
              unfolding reduce
              by (simp add: exact_log_exp outcome_of_simps outcome_of_returned info_of_plain
                  split: sum.splits)
          next
            case False
            with p az show ?thesis
              unfolding reduce by (simp add: exact_series_summation)
          qed
        qed
      qed
    qed
  qed
qed

lemma limit_loop_error:
  "limit_loop max_denominator p0 q0 p1 q1 n d = Inl e \<Longrightarrow> e = ZeroDivisionError"
proof (induction max_denominator p0 q0 p1 q1 n d rule: limit_loop.induct)
  case (1 max_denominator p0 q0 p1 q1 n d)
  show ?case
  proof (cases "d = 0")
    case True
    then show ?thesis using "1.prems" by (simp add: limit_loop.simps)
  next
    case False
    show ?thesis
    proof (cases "q0 + n div d * q1 > max_denominator")
      case True
      then show ?thesis using "1.prems" False
        by (subst (asm) limit_loop.simps) (simp add: Let_def)
    next
      case gt: False
      have "limit_loop max_denominator p1 q1 (p0 + n div d * p1) (q0 + n div d * q1) d
              (n - n div d * d) = Inl e"
        using "1.prems" False gt by (subst (asm) limit_loop.simps) (simp add: Let_def)
      then show ?thesis using "1.IH" [OF False refl refl gt] by simp
    qed
  qed
qed

lemma exact_library_errors:
  assumes "library_raises exact_arith e"
  shows "e = OverflowError \<or> e = ZeroDivisionError \<or> e = ValueError ''math domain error''"
  using assms
  by (auto simp add: library_raises_def py_pow_def range_checked_def py_abs_def py_div_def
      cmath_log_def cmath_exp_def limit_denominator_def Let_def
      dest: limit_loop_error split: if_splits sum.splits prod.splits)

lemma exact_library_not_domain_error: "\<not> library_raises exact_arith DomainError"
  using exact_library_errors [of DomainError] by (auto simp add: DomainError_def)

lemma exact_half_series_loop:
  "series_loop_with exact_arith (1 / 2) (1 / 2) (1 / 10 ^ 12)
     (effective_max_terms_with exact_arith 1 (1 / 2) (9 / 10)) 1 (c_one exact_arith)
     (c_one exact_arith) = Inr (2, 1 / 4, 5 / 4)"
  using half_series_loop
  by (simp add: exact_series_loop exact_effective_max_terms effective_max_terms_def)


section \<open>Warnings and errors\<close>

lemma power_powr:
  assumes "0 < (a::real)"
  shows "(a ^ n) powr b = a powr (real n * b)"
  using assms by (simp add: powr_realpow [symmetric] powr_powr)

lemma empty_budget_run:
  "aqueeq_binomial 1 2 (1 / 2) 2 0 (9 / 10) False = ([], Inr (of_real (sqrt 2), None))"
proof -
  have p: "preconditioning 1 2 = Inr (Some (2, 1 / 2))"
    using preconditioning_less [of 1 2] by (simp add: finite_float_small)
  have az: "py_abs (1 / 2) = Inr (1 / 2)"
    by (simp add: py_abs_def finite_float_small norm_divide)
  have em: "effective_max_terms 0 (1 / 2) (9 / 10) = 0"
    by (simp add: effective_max_terms_def)
  have l: "series_loop (1 / 2) (1 / 2) 2 0 1 1 1 = Inr (1, 1, 1)"
    by (simp add: series_loop_done)
  have nc: "no_convergence_check 1 0 1 1 2 (1 / 2) = Inr []"
    by (simp add: no_convergence_check_def py_abs_def finite_float_one)
  have sr: "series_result 2 (1 / 2) (1 / 2) 2 False 1 1 1 = Inr (of_real (sqrt 2), None)"
    by (simp add: series_result_def log_exp_nonzero sqrt_two_power finite_complex_of_real
        sqrt_two_finite)
  have ss: "series_summation 2 (1 / 2) (1 / 2) 2 0 (9 / 10) False
              = ([], Inr (of_real (sqrt 2), None))"
    using l nc sr by (simp add: series_summation_def az em)
  show ?thesis
    using ss by (simp add: aqueeq_binomial_def p az)
qed


text \<open>
  C9, as the specification states it, fails in two places. The domain error is not
  the only exception: at \<open>x = 2\<^sup>7\<^sup>0\<^sup>0\<close>, \<open>y = 0\<close>, \<open>alpha = 5/2\<close> the power
  \<open>x ** alpha\<close> is \<open>2\<^sup>1\<^sup>7\<^sup>5\<^sup>0\<close>, which is not a double, and the call raises
  \<open>OverflowError\<close>. And a loop that runs out of its budget with neither test
  satisfied does not always warn. The function accepts \<open>max_terms = 0\<close> (the
  specification's data model has \<open>max_terms\<close> at least 1, the function does not check
  it): with \<open>max_terms = 0\<close> and \<open>tol = 2\<close> the loop at \<open>x = 1\<close>, \<open>y = 2\<close>,
  \<open>alpha = 1/2\<close> is left at once, no test having been made, and line 112 finds
  \<open>abs(term) = 1 < 2 = tol * abs(S)\<close>: the call returns with no warning.
\<close>

theorem only_domain_error_counterexample:
  "snd (aqueeq_binomial (2 ^ 700) 0 (5 / 2) (1 / 10 ^ 12) 100 (9 / 10) False) = Inl OverflowError
   \<and> OverflowError \<noteq> DomainError
   \<and> series_loop (1 / 2) (1 / 2) 2 (effective_max_terms 0 (1 / 2) (9 / 10)) 1 1 1
       = Inr (1, 1, 1)
   \<and> effective_max_terms 0 (1 / 2) (9 / 10) < 1
   \<and> aqueeq_binomial 1 2 (1 / 2) 2 0 (9 / 10) False = ([], Inr (of_real (sqrt 2), None))"
proof -
  have "(2 ^ 700 :: real) powr (5 / 2) = 2 powr (real 700 * (5 / 2))"
    by (rule power_powr) simp
  also have "real 700 * (5 / 2) = real 1750" by simp
  also have "2 powr real 1750 = 2 ^ 1750" by (rule powr_realpow) simp
  finally have v: "(2 ^ 700 :: real) powr (5 / 2) = 2 ^ 1750" .
  have nf: "\<not> finite_float ((2 ^ 700) powr (5 / 2))"
    unfolding v finite_float_def float_max_bound_def by simp
  have pos: "(0::real) < 2 ^ 700" by simp
  have "py_pow (of_real (2 ^ 700)) (of_real (5 / 2)) = Inl OverflowError"
    by (simp only: py_pow_positive_real [OF pos] nf if_False)
  then have "py_pow (2 ^ 700) (5 / 2) = Inl OverflowError" by simp
  then have a: "snd (aqueeq_binomial (2 ^ 700) 0 (5 / 2) (1 / 10 ^ 12) 100 (9 / 10) False)
                  = Inl OverflowError"
    by (simp add: aqueeq_binomial_def)
  have em: "effective_max_terms 0 (1 / 2) (9 / 10) = 0"
    by (simp add: effective_max_terms_def)
  have l: "series_loop (1 / 2) (1 / 2) 2 (effective_max_terms 0 (1 / 2) (9 / 10)) 1 1 1
             = Inr (1, 1, 1)"
    unfolding em by (simp add: series_loop_done)
  show ?thesis
    using a l em empty_budget_run by (simp add: DomainError_def)
qed

text \<open>
  C9, amended, for every arithmetic. An exception that leaves the call is either
  raised by a library operation (\<open>**\<close>, \<open>Fraction(...).limit_denominator\<close>, \<open>abs\<close>,
  \<open>/\<close>, \<open>cmath.log\<close>, \<open>cmath.exp\<close>) or is the function's own domain error, which is
  raised for a zero sum only and before any warning: no exception comes from a
  warning. If the series stage is reached with \<open>max_terms\<close> at least 1 and the loop
  runs out of its budget (it is left with \<open>k\<close> above the budget), then \<open>abs(term)\<close>
  and \<open>abs(S)\<close> have returned, the last tolerance test \<open>abs(term) < tol * abs(S)\<close> has
  failed, the no-convergence warning, with the budget, \<open>|z|\<close> and the last \<open>|term|\<close>,
  is emitted exactly when the comparison \<open>abs(term) >= tol * abs(S)\<close> of line 112
  holds (as it does whenever no nan is compared), and with or without the warning the
  call goes on to \<open>exp(alpha * log A) * S\<close>: it returns that value, or raises what
  \<open>cmath.log\<close> or \<open>cmath.exp\<close> raises.
\<close>

theorem exhaustion_and_errors:
  "(snd (aqueeq_binomial_with L x y alpha tol max_terms boundary_threshold return_info) = Inl e
    \<longrightarrow> library_raises L e
        \<or> (e = DomainError
           \<and> fst (aqueeq_binomial_with L x y alpha tol max_terms boundary_threshold return_info)
               = []
           \<and> c_is_zero L (c_add L x y)
           \<and> \<not> (r_lt L (r_zero L) (c_real L alpha) \<and> r_is_zero L (c_imag L alpha))))
   \<and> (\<not> (c_is_zero L x \<and> \<not> c_is_zero L y) \<and> \<not> (c_is_zero L y \<and> \<not> c_is_zero L x)
      \<and> \<not> (c_eq L x (c_neg L y) \<and> r_is_zero L (c_imag L alpha)
             \<and> r_is_integer L (c_real L alpha))
      \<and> \<not> c_is_zero L (c_add L x y)
      \<and> preconditioning_with (c_abs L) (r_lt L) (c_div L) x y = Inr (Some (A, z))
      \<and> c_abs L z = Inr az \<and> \<not> r_lt L boundary_threshold az
      \<and> 1 \<le> max_terms
      \<and> series_loop_with L alpha z tol
           (effective_max_terms_with L max_terms az boundary_threshold) 1 (c_one L) (c_one L)
         = Inr (k, term, S)
      \<and> effective_max_terms_with L max_terms az boundary_threshold < k
    \<longrightarrow> (\<exists>t_abs S_abs.
           c_abs L term = Inr t_abs \<and> c_abs L S = Inr S_abs
           \<and> \<not> r_lt L t_abs (r_mul L tol S_abs)
           \<and> aqueeq_binomial_with L x y alpha tol max_terms boundary_threshold return_info =
               (if r_le L (r_mul L tol S_abs) t_abs
                then [NoConvergence (effective_max_terms_with L max_terms az boundary_threshold)
                        az t_abs]
                else [],
                case log_exp_with L alpha A of
                  Inl e \<Rightarrow> Inl e
                | Inr A_power \<Rightarrow>
                    Inr (c_mul L A_power S,
                         if return_info
                         then Some \<lparr>diag_terms_used = k, diag_used_fallback = False,
                                     diag_z = Some z, diag_note = None,
                                     diag_last_term_abs = Some t_abs,
                                     diag_converged = Some False, diag_base = Some A\<rparr>
                         else None))))"
proof (intro conjI impI)
  assume "snd (aqueeq_binomial_with L x y alpha tol max_terms boundary_threshold return_info)
            = Inl e"
  then show "library_raises L e
        \<or> (e = DomainError
           \<and> fst (aqueeq_binomial_with L x y alpha tol max_terms boundary_threshold return_info)
               = []
           \<and> c_is_zero L (c_add L x y)
           \<and> \<not> (r_lt L (r_zero L) (c_real L alpha) \<and> r_is_zero L (c_imag L alpha)))"
    by (rule aqueeq_binomial_with_error)
next
  assume h: "\<not> (c_is_zero L x \<and> \<not> c_is_zero L y) \<and> \<not> (c_is_zero L y \<and> \<not> c_is_zero L x)
      \<and> \<not> (c_eq L x (c_neg L y) \<and> r_is_zero L (c_imag L alpha)
             \<and> r_is_integer L (c_real L alpha))
      \<and> \<not> c_is_zero L (c_add L x y)
      \<and> preconditioning_with (c_abs L) (r_lt L) (c_div L) x y = Inr (Some (A, z))
      \<and> c_abs L z = Inr az \<and> \<not> r_lt L boundary_threshold az
      \<and> 1 \<le> max_terms
      \<and> series_loop_with L alpha z tol
           (effective_max_terms_with L max_terms az boundary_threshold) 1 (c_one L) (c_one L)
         = Inr (k, term, S)
      \<and> effective_max_terms_with L max_terms az boundary_threshold < k"
  let ?m = "effective_max_terms_with L max_terms az boundary_threshold"
  from h obtain t_abs S_abs where t: "c_abs L term = Inr t_abs" and s: "c_abs L S = Inr S_abs"
    and nc: "\<not> r_lt L t_abs (r_mul L tol S_abs)"
    and o: "aqueeq_binomial_with L x y alpha tol max_terms boundary_threshold return_info =
               (if r_le L (r_mul L tol S_abs) t_abs then [NoConvergence ?m az t_abs] else [],
                series_result_with L A z alpha tol return_info k term S)"
    using series_exhausted_outcome_with
      [of L x y alpha A z az boundary_threshold max_terms tol k "term" S return_info]
    by blast
  have r: "series_result_with L A z alpha tol return_info k term S =
             (case log_exp_with L alpha A of
                Inl e \<Rightarrow> Inl e
              | Inr A_power \<Rightarrow>
                  Inr (c_mul L A_power S,
                       if return_info
                       then Some \<lparr>diag_terms_used = k, diag_used_fallback = False,
                                   diag_z = Some z, diag_note = None,
                                   diag_last_term_abs = Some t_abs,
                                   diag_converged = Some False, diag_base = Some A\<rparr>
                       else None))"
    using nc by (simp add: series_result_with_def t s split: sum.splits)
  show "\<exists>t_abs S_abs.
           c_abs L term = Inr t_abs \<and> c_abs L S = Inr S_abs
           \<and> \<not> r_lt L t_abs (r_mul L tol S_abs)
           \<and> aqueeq_binomial_with L x y alpha tol max_terms boundary_threshold return_info =
               (if r_le L (r_mul L tol S_abs) t_abs then [NoConvergence ?m az t_abs] else [],
                case log_exp_with L alpha A of
                  Inl e \<Rightarrow> Inl e
                | Inr A_power \<Rightarrow>
                    Inr (c_mul L A_power S,
                         if return_info
                         then Some \<lparr>diag_terms_used = k, diag_used_fallback = False,
                                     diag_z = Some z, diag_note = None,
                                     diag_last_term_abs = Some t_abs,
                                     diag_converged = Some False, diag_base = Some A\<rparr>
                         else None))"
    using t s nc o r by (intro exI [of _ t_abs] exI [of _ S_abs]) simp
qed

theorem exhaustion_and_errors_witness:
  "aqueeq_binomial_with exact_arith 1 2 (1 / 2) (1 / 10 ^ 12) 1 (9 / 10) False =
     ([NoConvergence 1 (1 / 2) (1 / 4)], Inr (of_real (sqrt 2) * (5 / 4), None))
   \<and> snd (aqueeq_binomial_with exact_arith 1 (- 1) (- (1 / 2)) (1 / 10 ^ 12) 100 (9 / 10) False)
       = Inl DomainError
   \<and> fst (aqueeq_binomial_with exact_arith 1 (- 1) (- (1 / 2)) (1 / 10 ^ 12) 100 (9 / 10) False)
       = []"
proof -
  have p: "preconditioning_with (c_abs exact_arith) (r_lt exact_arith) (c_div exact_arith) 1 2
             = Inr (Some (2, 1 / 2))"
    using preconditioning_less [of 1 2]
    by (simp add: exact_preconditioning finite_float_small)
  have az: "c_abs exact_arith (1 / 2) = Inr (1 / 2)"
    by (simp add: py_abs_def finite_float_small norm_divide)
  have em: "effective_max_terms_with exact_arith 1 (1 / 2) (9 / 10) = 1"
    by (simp add: effective_max_terms_with_def)
  have h: "\<not> (c_is_zero exact_arith 1 \<and> \<not> c_is_zero exact_arith 2)
      \<and> \<not> (c_is_zero exact_arith 2 \<and> \<not> c_is_zero exact_arith 1)
      \<and> \<not> (c_eq exact_arith 1 (c_neg exact_arith 2) \<and> r_is_zero exact_arith (c_imag exact_arith (1 / 2))
             \<and> r_is_integer exact_arith (c_real exact_arith (1 / 2)))
      \<and> \<not> c_is_zero exact_arith (c_add exact_arith 1 2)
      \<and> preconditioning_with (c_abs exact_arith) (r_lt exact_arith) (c_div exact_arith) 1 2
          = Inr (Some (2, 1 / 2))
      \<and> c_abs exact_arith (1 / 2) = Inr (1 / 2) \<and> \<not> r_lt exact_arith (9 / 10) (1 / 2)
      \<and> (1::int) \<le> 1
      \<and> series_loop_with exact_arith (1 / 2) (1 / 2) (1 / 10 ^ 12)
           (effective_max_terms_with exact_arith 1 (1 / 2) (9 / 10)) 1 (c_one exact_arith)
           (c_one exact_arith)
         = Inr (2, 1 / 4, 5 / 4)
      \<and> effective_max_terms_with exact_arith 1 (1 / 2) (9 / 10) < 2"
    using p az exact_half_series_loop em by (simp add: is_integer_def)
  have d: "snd (aqueeq_binomial_with exact_arith 1 (- 1) (- (1 / 2)) (1 / 10 ^ 12) 100 (9 / 10)
                  False) = Inl DomainError"
    by (simp add: aqueeq_binomial_with_def is_integer_def)
  note t1 = exhaustion_and_errors [of exact_arith 1 2 "1 / 2" "1 / 10 ^ 12" 1 "9 / 10" False
      DomainError 2 "1 / 2" "1 / 2" 2 "1 / 4" "5 / 4", THEN conjunct2, rule_format, OF h]
  note t2 = exhaustion_and_errors [of exact_arith 1 "- 1" "- (1 / 2)" "1 / 10 ^ 12" 100 "9 / 10"
      False DomainError]
  have a14: "py_abs (1 / 4) = Inr (1 / 4)" and a54: "py_abs (5 / 4) = Inr (5 / 4)"
    by (simp_all add: py_abs_def finite_float_small norm_divide)
  have le: "log_exp_with exact_arith (1 / 2) 2 = Inr (of_real (sqrt 2))"
    by (simp add: exact_log_exp log_exp_nonzero sqrt_two_power finite_complex_of_real
        sqrt_two_finite)
  from t1 obtain t_abs S_abs where ta: "c_abs exact_arith (1 / 4) = Inr t_abs"
    and sa: "c_abs exact_arith (5 / 4) = Inr S_abs"
    and o: "aqueeq_binomial_with exact_arith 1 2 (1 / 2) (1 / 10 ^ 12) 1 (9 / 10) False =
               (if r_le exact_arith (r_mul exact_arith (1 / 10 ^ 12) S_abs) t_abs
                then [NoConvergence (effective_max_terms_with exact_arith 1 (1 / 2) (9 / 10))
                        (1 / 2) t_abs]
                else [],
                case log_exp_with exact_arith (1 / 2) 2 of
                  Inl e \<Rightarrow> Inl e
                | Inr A_power \<Rightarrow> Inr (c_mul exact_arith A_power (5 / 4), None))"
    by auto
  from ta sa a14 a54 have v: "t_abs = 1 / 4" "S_abs = 5 / 4" by simp_all
  have r1: "aqueeq_binomial_with exact_arith 1 2 (1 / 2) (1 / 10 ^ 12) 1 (9 / 10) False =
     ([NoConvergence 1 (1 / 2) (1 / 4)], Inr (of_real (sqrt 2) * (5 / 4), None))"
    unfolding o v le em by simp
  have r2: "fst (aqueeq_binomial_with exact_arith 1 (- 1) (- (1 / 2)) (1 / 10 ^ 12) 100 (9 / 10)
                   False) = []"
    using t2 d exact_library_not_domain_error by blast
  show ?thesis using r1 d r2 by simp
qed

section \<open>The dominant operand and the ratio\<close>

subsection \<open>Rounding to a double\<close>

lemma binade_eq:
  assumes "2 powi e \<le> \<bar>r\<bar>" "\<bar>r\<bar> < 2 powi (e + 1)" "- 1022 \<le> e"
  shows "binade r = e"
proof -
  have pos: "0 < \<bar>r\<bar>" using assms(1) by (smt (verit) zero_less_power_int)
  have "(2::real) powr (of_int (e + 1)) = 2 powi (e + 1)" by (rule powr_real_of_int') simp_all
  then have "2 powr (of_int e) \<le> \<bar>r\<bar> \<and> \<bar>r\<bar> < 2 powr (of_int e + 1)"
    using assms(1,2) by (simp add: powr_real_of_int')
  then have "\<lfloor>log 2 \<bar>r\<bar>\<rfloor> = e"
    using floor_log_eq_powr_iff [of "\<bar>r\<bar>" 2 e] pos by simp
  then show ?thesis using assms(3) by (simp add: binade_def)
qed

lemma round_double_binade:
  assumes "2 powi e \<le> \<bar>r\<bar>" "\<bar>r\<bar> < 2 powi (e + 1)" "- 1022 \<le> e"
  shows "round_double r = of_int (rne (r / 2 powi (e - 52))) * 2 powi (e - 52)"
proof -
  have "r \<noteq> 0" using assms(1) by (smt (verit) zero_less_power_int)
  then show ?thesis by (simp add: round_double_def binade_eq [OF assms])
qed

lemma rne_near: "\<bar>r - of_int m\<bar> < 1 / 2 \<Longrightarrow> rne r = m"
proof -
  assume a: "\<bar>r - of_int m\<bar> < 1 / 2"
  have "\<lfloor>r\<rfloor> = m \<or> \<lfloor>r\<rfloor> = m - 1" using a by linarith
  then show ?thesis
  proof
    assume f: "\<lfloor>r\<rfloor> = m"
    have "r - of_int m < 1 / 2" using a by linarith
    then show ?thesis using f by (simp only: rne_def Let_def if_True)
  next
    assume f: "\<lfloor>r\<rfloor> = m - 1"
    then have "1 / 2 < r - of_int (m - 1)" "\<not> r - of_int (m - 1) < 1 / 2"
      using a by (simp, linarith)+
    then show ?thesis using f by (simp only: rne_def Let_def if_True if_False)
  qed
qed

lemma round_double_sqrt:
  assumes "- 1022 \<le> e" and "0 < m"
    and "(2 powi e)\<^sup>2 \<le> s" and "s < (2 powi (e + 1))\<^sup>2"
    and "((of_int m - 1 / 2) * 2 powi (e - 52))\<^sup>2 < s"
    and "s < ((of_int m + 1 / 2) * 2 powi (e - 52))\<^sup>2"
  shows "round_double (sqrt s) = of_int m * 2 powi (e - 52)"
proof -
  let ?q = "(2::real) powi (e - 52)"
  have q: "0 < ?q" by (simp add: zero_less_power_int)
  have s: "0 \<le> s" using assms(3) by (smt (verit) zero_le_power2)
  have lo: "2 powi e \<le> sqrt s"
    using assms(3) by (metis real_le_rsqrt)
  have hi: "sqrt s < 2 powi (e + 1)"
    using assms(4) by (metis real_less_lsqrt less_eq_real_def zero_less_power_int zero_less_numeral)
  have m: "0 \<le> (of_int m - 1 / 2) * ?q" using assms(2) q by simp
  have a: "(of_int m - 1 / 2) * ?q < sqrt s"
    using assms(5) m by (metis real_less_rsqrt)
  have b: "sqrt s < (of_int m + 1 / 2) * ?q"
    using assms(6) assms(2) q by (intro real_less_lsqrt) (auto simp add: less_eq_real_def)
  have "of_int m - 1 / 2 < sqrt s / ?q" "sqrt s / ?q < of_int m + 1 / 2"
    using a b q by (simp_all add: pos_less_divide_eq pos_divide_less_eq)
  then have "\<bar>sqrt s / ?q - of_int m\<bar> < 1 / 2" by linarith
  then have "rne (sqrt s / ?q) = m" by (rule rne_near)
  moreover have "\<bar>sqrt s\<bar> = sqrt s" using s by simp
  ultimately show ?thesis using round_double_binade [of e "sqrt s"] lo hi assms(1) by simp
qed

subsection \<open>Two quotients of doubles\<close>

lemma double_quot_real_dominant:
  assumes "b \<noteq> 0" and "\<bar>Im b\<bar> \<le> \<bar>Re b\<bar>"
    and "round_double (Im b / Re b) = ratio"
    and "round_double (Im b * ratio) = p"
    and "round_double (Re b + p) = denom"
    and "round_double (Im a * ratio) = p1"
    and "round_double (Re a + p1) = s1"
    and "round_double (s1 / denom) = re"
    and "round_double (Re a * ratio) = p2"
    and "round_double (Im a - p2) = s2"
    and "round_double (s2 / denom) = im"
  shows "double_quot a b = Inr (Complex re im)"
  using assms by (simp add: double_quot_def Let_def)

lemma double_abs_value:
  assumes "round_double (sqrt ((Re c)\<^sup>2 + (Im c)\<^sup>2)) = r" and "r < 2 ^ 1024"
  shows "double_abs c = Inr r"
  using assms by (simp add: double_abs_def cmod_def)

lemma close_quotient: "double_quot close_x close_y = Inr close_z"
  unfolding close_x_def close_y_def close_z_def
proof (rule double_quot_real_dominant
    [where ratio = "3568593162351411 / 2 ^ 52" and p = "- (4376204416313565 / 2 ^ 53)"
       and denom = "- (1418256078784495 / 2 ^ 50)" and ?p1.0 = "- (591983098575281 / 2 ^ 50)"
       and ?s1.0 = "- (707539476308537 / 2 ^ 49)" and ?p2.0 = "- (5217682706681147 / 2 ^ 53)"
       and ?s2.0 = "- (47439073740263 / 2 ^ 49)"])
  let ?a = "Complex (- (6584766832334343 / 2 ^ 53)) (- (5976707886525355 / 2 ^ 53))"
  let ?b = "Complex (- (1742461053490599 / 2 ^ 51)) (- (2761406481766121 / 2 ^ 52))"
  show "?b \<noteq> 0" by (simp add: complex_eq_iff)
  show "\<bar>Im ?b\<bar> \<le> \<bar>Re ?b\<bar>" by simp
  show "round_double (Im ?b / Re ?b) = 3568593162351411 / 2 ^ 52"
    using round_double_binade [of "- 1" "Im ?b / Re ?b"] by (simp add: rne_def)
  show "round_double (Im ?b * (3568593162351411 / 2 ^ 52)) = - (4376204416313565 / 2 ^ 53)"
    using round_double_binade [of "- 2" "Im ?b * (3568593162351411 / 2 ^ 52)"]
    by (simp add: rne_def)
  show "round_double (Re ?b + - (4376204416313565 / 2 ^ 53)) = - (1418256078784495 / 2 ^ 50)"
    using round_double_binade [of 0 "Re ?b + - (4376204416313565 / 2 ^ 53)"]
    by (simp add: rne_def)
  show "round_double (Im ?a * (3568593162351411 / 2 ^ 52)) = - (591983098575281 / 2 ^ 50)"
    using round_double_binade [of "- 1" "Im ?a * (3568593162351411 / 2 ^ 52)"]
    by (simp add: rne_def)
  show "round_double (Re ?a + - (591983098575281 / 2 ^ 50)) = - (707539476308537 / 2 ^ 49)"
    using round_double_binade [of 0 "Re ?a + - (591983098575281 / 2 ^ 50)"]
    by (simp add: rne_def)
  show "round_double (- (707539476308537 / 2 ^ 49) / - (1418256078784495 / 2 ^ 50))
          = 8987021651503121 / 2 ^ 53"
    using round_double_binade
      [of "- 1" "- (707539476308537 / 2 ^ 49) / - (1418256078784495 / 2 ^ 50)"]
    by (simp add: rne_def)
  show "round_double (Re ?a * (3568593162351411 / 2 ^ 52)) = - (5217682706681147 / 2 ^ 53)"
    using round_double_binade [of "- 1" "Re ?a * (3568593162351411 / 2 ^ 52)"]
    by (simp add: rne_def)
  show "round_double (Im ?a - - (5217682706681147 / 2 ^ 53)) = - (47439073740263 / 2 ^ 49)"
    using round_double_binade [of "- 4" "Im ?a - - (5217682706681147 / 2 ^ 53)"]
    by (simp add: rne_def)
  show "round_double (- (47439073740263 / 2 ^ 49) / - (1418256078784495 / 2 ^ 50))
          = 2410245630705045 / 2 ^ 55"
    using round_double_binade
      [of "- 4" "- (47439073740263 / 2 ^ 49) / - (1418256078784495 / 2 ^ 50)"]
    by (simp add: rne_def)
qed

lemma close_x_abs: "double_abs close_x = Inr (8892704391638397 / 2 ^ 53)"
proof (rule double_abs_value)
  show "round_double (sqrt ((Re close_x)\<^sup>2 + (Im close_x)\<^sup>2)) = 8892704391638397 / 2 ^ 53"
    using round_double_sqrt [of "- 1" 8892704391638397 "(Re close_x)\<^sup>2 + (Im close_x)\<^sup>2"]
    by (simp add: close_x_def power2_eq_square)
  show "(8892704391638397 / 2 ^ 53 :: real) < 2 ^ 1024" by simp
qed

lemma close_y_abs: "double_abs close_y = Inr (8892704391638399 / 2 ^ 53)"
proof (rule double_abs_value)
  show "round_double (sqrt ((Re close_y)\<^sup>2 + (Im close_y)\<^sup>2)) = 8892704391638399 / 2 ^ 53"
    using round_double_sqrt [of "- 1" 8892704391638399 "(Re close_y)\<^sup>2 + (Im close_y)\<^sup>2"]
    by (simp add: close_y_def power2_eq_square)
  show "(8892704391638399 / 2 ^ 53 :: real) < 2 ^ 1024" by simp
qed

lemma close_z_abs: "double_abs close_z = Inr 1"
proof (rule double_abs_value)
  show "round_double (sqrt ((Re close_z)\<^sup>2 + (Im close_z)\<^sup>2)) = 1"
    using round_double_sqrt [of 0 "2 ^ 52" "(Re close_z)\<^sup>2 + (Im close_z)\<^sup>2"]
    by (simp add: close_z_def power2_eq_square)
  show "(1 :: real) < 2 ^ 1024" by simp
qed

lemma diagonal_abs: "double_abs (Complex 1 1) = Inr root_two"
proof (rule double_abs_value)
  show "round_double (sqrt ((Re (Complex 1 1))\<^sup>2 + (Im (Complex 1 1))\<^sup>2)) = root_two"
    using round_double_sqrt [of 0 6369051672525773 "(Re (Complex 1 1))\<^sup>2 + (Im (Complex 1 1))\<^sup>2"]
    by (simp add: root_two_def power2_eq_square)
  show "root_two < 2 ^ 1024" by (simp add: root_two_def)
qed

lemma root_two_abs: "double_abs (of_real root_two) = Inr root_two"
proof (rule double_abs_value)
  show "round_double (sqrt ((Re (of_real root_two))\<^sup>2 + (Im (of_real root_two))\<^sup>2)) = root_two"
    using round_double_binade [of 0 root_two]
    by (simp add: root_two_def rne_def)
  show "root_two < 2 ^ 1024" by (simp add: root_two_def)
qed

text \<open>
  C8, as the specification states it, fails on doubles. The operands \<open>close_x\<close> and
  \<open>close_y\<close> are not zero, their sum is not zero and their magnitudes differ;
  \<open>abs(close_x) < abs(close_y)\<close>, so that \<open>A\<close> is \<open>close_y\<close>, and line 68 stores
  \<open>z = close_x / close_y\<close>, the double pair \<open>close_z\<close>, whose modulus is above 1
  and whose \<open>abs\<close> is \<open>1.0\<close>: not \<open>|z| < 1\<close>. And at \<open>x = 1+1j\<close>,
  \<open>y = 1.4142135623730951\<close> the magnitudes differ (the square root of two is not a
  double) while \<open>abs(x)\<close> and \<open>abs(y)\<close> are the same double: no \<open>A\<close> is selected, the
  call takes the equal-magnitude branch.
\<close>

theorem preconditioner_ratio_counterexample:
  "close_x \<noteq> 0 \<and> close_y \<noteq> 0 \<and> cmod close_x \<noteq> cmod close_y \<and> close_x + close_y \<noteq> 0
   \<and> preconditioning_with double_abs (<) double_quot close_x close_y
       = Inr (Some (close_y, close_z))
   \<and> 1 < cmod close_z \<and> double_abs close_z = Inr 1
   \<and> Complex 1 1 \<noteq> 0 \<and> (of_real root_two :: complex) \<noteq> 0
   \<and> cmod (Complex 1 1) \<noteq> cmod (of_real root_two) \<and> Complex 1 1 + of_real root_two \<noteq> 0
   \<and> preconditioning_with double_abs (<) double_quot (Complex 1 1) (of_real root_two) = Inr None"
proof -
  have a: "close_x \<noteq> 0" "close_y \<noteq> 0" "close_x + close_y \<noteq> 0"
    by (simp_all add: close_x_def close_y_def complex_eq_iff)
  have b: "cmod close_x \<noteq> cmod close_y"
    by (simp add: close_x_def close_y_def cmod_def power2_eq_square)
  have c: "preconditioning_with double_abs (<) double_quot close_x close_y
             = Inr (Some (close_y, close_z))"
    by (simp add: preconditioning_with_def close_x_abs close_y_abs close_quotient)
  have d: "1 < cmod close_z" by (simp add: close_z_def cmod_def power2_eq_square)
  have e: "Complex 1 1 \<noteq> 0" "(of_real root_two :: complex) \<noteq> 0"
    "Complex 1 1 + of_real root_two \<noteq> 0"
    by (simp_all add: root_two_def complex_eq_iff)
  have "root_two * root_two \<noteq> 2" by (simp add: root_two_def)
  then have "sqrt 2 \<noteq> root_two" by (metis abs_numeral real_sqrt_abs2 real_sqrt_mult_self)
  then have f: "cmod (Complex 1 1) \<noteq> cmod (of_real root_two)"
    by (simp add: cmod_def root_two_def)
  have g: "preconditioning_with double_abs (<) double_quot (Complex 1 1) (of_real root_two)
             = Inr None"
    by (simp add: preconditioning_with_def diagonal_abs root_two_abs)
  show ?thesis using a b c d e f g close_z_abs by blast
qed

text \<open>
  C8, amended. For every \<open>abs\<close>, \<open><\<close> and \<open>/\<close>: the preconditioning selects an \<open>A\<close>
  and a \<open>z\<close> exactly when \<open>abs(x)\<close> and \<open>abs(y)\<close> return and one of the two computed
  magnitudes is less than the other; \<open>A\<close> is then the operand whose computed
  magnitude is the larger and \<open>z\<close> is what \<open>/\<close> returns for the other operand and
  \<open>A\<close>. It selects nothing (the equal-magnitude branch) exactly when neither
  computed magnitude is less than the other, and it raises exactly what \<open>abs\<close> or
  \<open>/\<close> raises. In exact arithmetic, for \<open>x\<close> and \<open>y\<close> not zero and of different
  magnitudes in the range of the doubles, an \<open>A\<close> is selected, it is the operand of
  strictly larger magnitude, \<open>z\<close> is the other operand divided by \<open>A\<close> and
  \<open>|z| < 1\<close>. Of the rounded quotient that double arithmetic stores, \<open>|z| < 1\<close> is
  not claimed.
\<close>

theorem preconditioner_selection:
  "(preconditioning_with abs_of lt quot x y = Inr (Some (A, z)) \<longleftrightarrow>
      (\<exists>ax ay. abs_of x = Inr ax \<and> abs_of y = Inr ay
         \<and> (lt ax ay \<and> A = y \<and> quot x y = Inr z
            \<or> \<not> lt ax ay \<and> lt ay ax \<and> A = x \<and> quot y x = Inr z)))
   \<and> (preconditioning_with abs_of lt quot x y = Inr None \<longleftrightarrow>
      (\<exists>ax ay. abs_of x = Inr ax \<and> abs_of y = Inr ay \<and> \<not> lt ax ay \<and> \<not> lt ay ax))
   \<and> (preconditioning_with abs_of lt quot x y = Inl e \<longleftrightarrow>
      abs_of x = Inl e
      \<or> (\<exists>ax. abs_of x = Inr ax
            \<and> (abs_of y = Inl e
               \<or> (\<exists>ay. abs_of y = Inr ay
                     \<and> (lt ax ay \<and> quot x y = Inl e
                        \<or> \<not> lt ax ay \<and> lt ay ax \<and> quot y x = Inl e)))))
   \<and> preconditioning_with py_abs (<) py_div u v = preconditioning u v
   \<and> (u \<noteq> 0 \<and> v \<noteq> 0 \<and> cmod u \<noteq> cmod v
        \<and> finite_float (cmod u) \<and> finite_float (cmod v)
      \<longrightarrow> (\<exists>B C w. (B = u \<and> C = v \<or> B = v \<and> C = u) \<and> cmod C < cmod B \<and> w = C / B
             \<and> cmod w < 1 \<and> preconditioning u v = Inr (Some (B, w))))"
proof (intro conjI)
  show "preconditioning_with abs_of lt quot x y = Inr (Some (A, z)) \<longleftrightarrow>
      (\<exists>ax ay. abs_of x = Inr ax \<and> abs_of y = Inr ay
         \<and> (lt ax ay \<and> A = y \<and> quot x y = Inr z
            \<or> \<not> lt ax ay \<and> lt ay ax \<and> A = x \<and> quot y x = Inr z))"
    by (cases "abs_of x"; cases "abs_of y"; cases "quot x y"; cases "quot y x")
      (auto simp add: preconditioning_with_def)
  show "preconditioning_with abs_of lt quot x y = Inr None \<longleftrightarrow>
      (\<exists>ax ay. abs_of x = Inr ax \<and> abs_of y = Inr ay \<and> \<not> lt ax ay \<and> \<not> lt ay ax)"
    by (cases "abs_of x"; cases "abs_of y"; cases "quot x y"; cases "quot y x")
      (auto simp add: preconditioning_with_def)
  show "preconditioning_with abs_of lt quot x y = Inl e \<longleftrightarrow>
      abs_of x = Inl e
      \<or> (\<exists>ax. abs_of x = Inr ax
            \<and> (abs_of y = Inl e
               \<or> (\<exists>ay. abs_of y = Inr ay
                     \<and> (lt ax ay \<and> quot x y = Inl e
                        \<or> \<not> lt ax ay \<and> lt ay ax \<and> quot y x = Inl e))))"
    by (cases "abs_of x"; cases "abs_of y"; cases "quot x y"; cases "quot y x")
      (auto simp add: preconditioning_with_def)
  show "preconditioning_with py_abs (<) py_div u v = preconditioning u v"
    by (rule exact_preconditioning)
  show "u \<noteq> 0 \<and> v \<noteq> 0 \<and> cmod u \<noteq> cmod v \<and> finite_float (cmod u) \<and> finite_float (cmod v)
      \<longrightarrow> (\<exists>B C w. (B = u \<and> C = v \<or> B = v \<and> C = u) \<and> cmod C < cmod B \<and> w = C / B
             \<and> cmod w < 1 \<and> preconditioning u v = Inr (Some (B, w)))"
  proof
    assume h: "u \<noteq> 0 \<and> v \<noteq> 0 \<and> cmod u \<noteq> cmod v
               \<and> finite_float (cmod u) \<and> finite_float (cmod v)"
    then consider "cmod u < cmod v" | "cmod v < cmod u" by linarith
    then show "\<exists>B C w. (B = u \<and> C = v \<or> B = v \<and> C = u) \<and> cmod C < cmod B \<and> w = C / B
             \<and> cmod w < 1 \<and> preconditioning u v = Inr (Some (B, w))"
    proof cases
      case 1
      then have "cmod (u / v) < 1" by (rule cmod_ratio_less_one)
      moreover have "preconditioning u v = Inr (Some (v, u / v))"
        using h 1 by (simp add: preconditioning_less)
      ultimately show ?thesis using 1 by blast
    next
      case 2
      then have "cmod (v / u) < 1" by (rule cmod_ratio_less_one)
      moreover have "preconditioning u v = Inr (Some (u, v / u))"
        using h 2 by (simp add: preconditioning_greater)
      ultimately show ?thesis using 2 by blast
    qed
  qed
qed

theorem preconditioner_selection_witness:
  "double_abs close_x = Inr (8892704391638397 / 2 ^ 53)
   \<and> double_abs close_y = Inr (8892704391638399 / 2 ^ 53)
   \<and> (8892704391638397 / 2 ^ 53 :: real) < 8892704391638399 / 2 ^ 53
   \<and> double_quot close_x close_y = Inr close_z
   \<and> preconditioning_with double_abs (<) double_quot close_x close_y
       = Inr (Some (close_y, close_z))
   \<and> (1::complex) \<noteq> 0 \<and> (8::complex) \<noteq> 0 \<and> cmod 1 \<noteq> cmod 8
   \<and> finite_float (cmod 1) \<and> finite_float (cmod 8)
   \<and> preconditioning 1 8 = Inr (Some (8, 1 / 8)) \<and> cmod (1 / 8 :: complex) < 1"
proof -
  note t = preconditioner_selection [of double_abs "(<)" double_quot close_x close_y close_y
      close_z OverflowError 1 8]
  have lt: "(8892704391638397 / 2 ^ 53 :: real) < 8892704391638399 / 2 ^ 53" by simp
  have a: "preconditioning_with double_abs (<) double_quot close_x close_y
             = Inr (Some (close_y, close_z))"
  proof (rule iffD2 [OF t [THEN conjunct1]], intro exI conjI disjI1)
    show "double_abs close_x = Inr (8892704391638397 / 2 ^ 53)" by (rule close_x_abs)
    show "double_abs close_y = Inr (8892704391638399 / 2 ^ 53)" by (rule close_y_abs)
    show "(8892704391638397 / 2 ^ 53 :: real) < 8892704391638399 / 2 ^ 53" by (rule lt)
    show "close_y = close_y" by (rule refl)
    show "double_quot close_x close_y = Inr close_z" by (rule close_quotient)
  qed
  have h1: "(1::complex) \<noteq> 0" and h2: "(8::complex) \<noteq> 0" and h3: "cmod 1 \<noteq> cmod 8"
    and h4: "finite_float (cmod 1)" and h5: "finite_float (cmod 8)"
    by (simp_all add: finite_float_one finite_float_numeral)
  have "\<exists>B C w. (B = 1 \<and> C = 8 \<or> B = 8 \<and> C = (1::complex)) \<and> cmod C < cmod B
           \<and> w = C / B \<and> cmod w < 1 \<and> preconditioning 1 8 = Inr (Some (B, w))"
    by (rule t [THEN conjunct2, THEN conjunct2, THEN conjunct2, THEN conjunct2, THEN mp])
      (intro conjI h1 h2 h3 h4 h5)
  then obtain B C w where bc: "B = 1 \<and> C = 8 \<or> B = 8 \<and> C = (1::complex)"
    and c: "cmod C < cmod B" and w: "w = C / B" and w1: "cmod w < 1"
    and p: "preconditioning 1 8 = Inr (Some (B, w))"
    by blast
  from bc c have "B = 8" "C = 1" by auto
  with w w1 p have r: "preconditioning 1 8 = Inr (Some (8, 1 / 8))"
    and s: "cmod (1 / 8 :: complex) < 1"
    by simp_all
  show ?thesis
    by (intro conjI) (rule close_x_abs close_y_abs lt close_quotient a h1 h2 h3 h4 h5 r s)+
qed

end
